theory Spec2Isabelle
  imports Complex_Main "HOL-Library.Multiset"
begin

section \<open>Python values used by the span finders\<close>

text \<open>
  A Python \<open>dict\<close> keeps its keys in insertion order, and assigning to an existing key
  keeps the key's position. Both span finders iterate over dictionaries and return lists
  built in that order, so a dictionary is modelled as an association list with these two
  rules.
\<close>

fun dict_set :: "('k \<times> 'v) list \<Rightarrow> 'k \<Rightarrow> 'v \<Rightarrow> ('k \<times> 'v) list" where
  "dict_set [] k v = [(k, v)]"
| "dict_set ((k', v') # kvs) k v =
     (if k' = k then (k, v) # kvs else (k', v') # dict_set kvs k v)"

definition dict_get :: "('k \<times> 'v) list \<Rightarrow> 'k \<Rightarrow> 'v \<Rightarrow> 'v" where
  "dict_get d k dflt = (case map_of d k of None \<Rightarrow> dflt | Some v \<Rightarrow> v)"

definition truthy :: "string option \<Rightarrow> bool" where
  "truthy v = (case v of None \<Rightarrow> False | Some s \<Rightarrow> s \<noteq> [])"

datatype py_error = KeyError | ValueError | QueryError

subsection \<open>\<open>int(str)\<close> on ASCII text\<close>

text \<open>
  \<open>int(s)\<close> strips surrounding whitespace, reads an optional sign and then decimal digits,
  where single underscores may separate digits; anything else raises \<open>ValueError\<close>
  (here \<open>None\<close>). The model covers strings of ASCII characters that stay below the
  interpreter's limit on the number of digits.
\<close>

definition is_py_space :: "char \<Rightarrow> bool" where
  "is_py_space c = (let n = (of_char c :: nat) in (9 \<le> n \<and> n \<le> 13) \<or> (28 \<le> n \<and> n \<le> 32))"

definition is_digit :: "char \<Rightarrow> bool" where
  "is_digit c = (let n = (of_char c :: nat) in 48 \<le> n \<and> n \<le> 57)"

definition digit_val :: "char \<Rightarrow> nat" where
  "digit_val c = (of_char c :: nat) - 48"

definition py_strip :: "string \<Rightarrow> string" where
  "py_strip s = rev (dropWhile is_py_space (rev (dropWhile is_py_space s)))"

fun py_digits :: "nat \<Rightarrow> string \<Rightarrow> nat option" where
  "py_digits acc [] = Some acc"
| "py_digits acc [c] = (if is_digit c then Some (acc * 10 + digit_val c) else None)"
| "py_digits acc (c # d # ds) =
     (if is_digit c then py_digits (acc * 10 + digit_val c) (d # ds)
      else if c = CHR ''_'' \<and> is_digit d then py_digits (acc * 10 + digit_val d) ds
      else None)"

definition py_unsigned :: "string \<Rightarrow> nat option" where
  "py_unsigned s =
     (case s of [] \<Rightarrow> None
      | d # ds \<Rightarrow> if is_digit d then py_digits (digit_val d) ds else None)"

definition py_int :: "string \<Rightarrow> int option" where
  "py_int s =
     (case py_strip s of [] \<Rightarrow> None
      | c # cs \<Rightarrow>
          if c = CHR ''-'' then map_option (\<lambda>n. - int n) (py_unsigned cs)
          else if c = CHR ''+'' then map_option int (py_unsigned cs)
          else map_option int (py_unsigned (c # cs)))"

section \<open>Error root-cause selector (\<open>error_span_finder.py\<close>)\<close>

text \<open>
  A span is the dictionary returned by \<open>get_contents()\<close>; the code reads four of its
  keys. A field is \<open>None\<close> when the key is absent: \<open>span.get('traceId')\<close> then gives
  \<open>None\<close>, and \<open>span["spanId"]\<close> raises \<open>KeyError\<close>.
\<close>

record span =
  traceId :: "string option"
  spanId :: "string option"
  parentSpanId :: "string option"
  statusCode :: "string option"

text \<open>The three dictionaries filled by the first loop of \<open>process_one_trace_log\<close>.\<close>

record trace_maps =
  span_status :: "(string \<times> int) list"
  parent_spans :: "(string \<times> string) list"
  child_spans :: "(string \<times> string list) list"

definition empty_maps :: trace_maps where
  "empty_maps = \<lparr>span_status = [], parent_spans = [], child_spans = []\<rparr>"

text \<open>One iteration of the first loop (lines 115 to 126).\<close>

definition register_span :: "trace_maps \<Rightarrow> span \<Rightarrow> py_error + trace_maps" where
  "register_span m s =
     (case spanId s of None \<Rightarrow> Inl KeyError
      | Some span_id \<Rightarrow>
     (case parentSpanId s of None \<Rightarrow> Inl KeyError
      | Some parent_span_id \<Rightarrow>
     (case statusCode s of None \<Rightarrow> Inl KeyError
      | Some sc \<Rightarrow>
     (case py_int sc of None \<Rightarrow> Inl ValueError
      | Some status \<Rightarrow>
          let m1 = m\<lparr>span_status := dict_set (span_status m) span_id status\<rparr>
          in if parent_span_id \<noteq> [] then
               Inr (m1\<lparr>parent_spans := dict_set (parent_spans m1) span_id parent_span_id,
                       child_spans := dict_set (child_spans m1) parent_span_id
                          (dict_get (child_spans m1) parent_span_id [] @ [span_id])\<rparr>)
             else Inr m1))))"

fun build_maps :: "trace_maps \<Rightarrow> span list \<Rightarrow> py_error + trace_maps" where
  "build_maps m [] = Inr m"
| "build_maps m (s # ss) =
     (case register_span m s of Inl e \<Rightarrow> Inl e | Inr m' \<Rightarrow> build_maps m' ss)"

definition error_spans :: "trace_maps \<Rightarrow> string list" where
  "error_spans m = map fst (filter (\<lambda>(span_id, status). status > 1) (span_status m))"

text \<open>
  The inner loop with its \<open>break\<close>: a span stays a root cause unless one of its
  registered children has a recorded status above 1
  (\<open>span_status.get(child_span, 0) > 1\<close>).
\<close>

definition is_root :: "trace_maps \<Rightarrow> string \<Rightarrow> bool" where
  "is_root m error_span =
     (case map_of (child_spans m) error_span of
        None \<Rightarrow> True
      | Some children \<Rightarrow> list_all (\<lambda>child_span. \<not> dict_get (span_status m) child_span 0 > 1) children)"

definition process_one_trace_log :: "span list \<Rightarrow> py_error + string list" where
  "process_one_trace_log trace_log =
     (case build_maps empty_maps trace_log of
        Inl e \<Rightarrow> Inl e
      | Inr m \<Rightarrow> Inr (filter (is_root m) (error_spans m)))"

text \<open>Grouping by \<open>traceId\<close> (lines 83 to 89); spans without a trace id are dropped.\<close>

fun group_traces :: "(string \<times> span list) list \<Rightarrow> span list \<Rightarrow> (string \<times> span list) list" where
  "group_traces g [] = g"
| "group_traces g (s # ss) =
     (case traceId s of
        None \<Rightarrow> group_traces g ss
      | Some trace_id \<Rightarrow>
          if trace_id = [] then group_traces g ss
          else group_traces (dict_set g trace_id (dict_get g trace_id [] @ [s])) ss)"

fun process_groups :: "(string \<times> span list) list \<Rightarrow> py_error + string list" where
  "process_groups [] = Inr []"
| "process_groups ((trace_id, trace_logs) # gs) =
     (case process_one_trace_log trace_logs of
        Inl e \<Rightarrow> Inl e
      | Inr root_cause_span_ids \<Rightarrow>
          (case process_groups gs of
             Inl e \<Rightarrow> Inl e
           | Inr rest \<Rightarrow> Inr (root_cause_span_ids @ rest)))"

text \<open>
  \<open>find_root_cause_spans\<close>, from the span list of the query response on
  (\<open>all_spans\<close>, line 78).
\<close>

definition find_root_cause_spans :: "span list \<Rightarrow> py_error + string list" where
  "find_root_cause_spans all_spans = process_groups (group_traces [] all_spans)"


section \<open>Exclusive-duration percentile selector (\<open>latency_span_finder.py\<close>)\<close>

subsection \<open>Inputs\<close>

text \<open>
  The constants imported from \<open>utils.constants\<close> (line 27) are not part of the
  sources; the functions below take them as a parameter.
\<close>

record constants =
  MAX_DURATION :: real
  PERCENT_95 :: real
  HIGH_RT_TRACES :: nat
  TRACES_FOR_AVG_RT :: nat

text \<open>
  A query-result row after \<open>_parse_array_field\<close> has decoded its four array fields.
  The element types follow the select list of \<open>get_spl_query\<close> (lines 144 to 149):
  span ids are strings, span indices are integers, and an exclusive duration is a JSON
  number or something else (the \<open>isinstance(duration, (int, float))\<close> test).
  Python's float arithmetic is modelled by exact real arithmetic.
\<close>

datatype duration_value = Num real | NotNum

text \<open>
  An element of \<open>span_list\<close>: a dictionary, a positional list, a string (with the result
  of \<open>json.loads\<close> on it, \<open>None\<close> for \<open>JSONDecodeError\<close>), or anything else.
\<close>

datatype span_info =
    InfoDict "(string \<times> string) list"
  | InfoList "string list"
  | InfoStr "span_info option"
  | InfoOther

record excl_log =
  span_ids :: "string list"
  span_indices :: "int list"
  exclusive_durations :: "duration_value list"
  span_list :: "span_info list"

text \<open>A row of the identity lookup \<open>select spanId, serviceName, spanName\<close>.\<close>

record service_log =
  log_spanId :: "string option"
  log_serviceName :: "string option"
  log_spanName :: "string option"

text \<open>
  The identity lookup of the query collaborator: the answer of \<open>client.get_logs\<close> to the
  query built from one batch of span ids, or the exception it raises.
\<close>

type_synonym lookup = "string list \<Rightarrow> py_error + service_log list"

record finder =
  minus_average :: bool
  only_top1_per_trace :: bool
  span_average_durations :: "(string \<times> real) list"

subsection \<open>Identity extraction\<close>

fun extract_service_and_span_name :: "span_info \<Rightarrow> string \<times> string" where
  "extract_service_and_span_name (InfoDict d) =
     (let service_name = (if dict_get d ''servicename'' [] \<noteq> [] then dict_get d ''servicename'' []
                          else dict_get d ''serviceName'' []);
          span_name = (if dict_get d ''spanname'' [] \<noteq> [] then dict_get d ''spanname'' []
                       else dict_get d ''spanName'' [])
      in (service_name, span_name))"
| "extract_service_and_span_name (InfoList xs) =
     (if length xs \<ge> 5 then (xs ! 3, xs ! 4) else ([], []))"
| "extract_service_and_span_name (InfoStr (Some parsed_info)) = extract_service_and_span_name parsed_info"
| "extract_service_and_span_name (InfoStr None) = ([], [])"
| "extract_service_and_span_name InfoOther = ([], [])"

text \<open>
  The block repeated at lines 320, 363, 395 and 416: the names of the span at
  \<open>span_index\<close>, when the index is in range and both names are non-empty.
\<close>

definition names_at :: "span_info list \<Rightarrow> int \<Rightarrow> (string \<times> string) option" where
  "names_at sl span_index =
     (if sl \<noteq> [] \<and> 0 \<le> span_index \<and> span_index < int (length sl) then
        (case extract_service_and_span_name (sl ! nat span_index) of
           (service_name, span_name) \<Rightarrow>
             if service_name \<noteq> [] \<and> span_name \<noteq> [] then Some (service_name, span_name) else None)
      else None)"

definition combined_key :: "string \<Rightarrow> string \<Rightarrow> string" where
  "combined_key service_name span_name = service_name @ ''<sep>'' @ span_name"

subsection \<open>Collecting durations (lines 279 to 429)\<close>

record mappings =
  span_duration_mapping :: "(string \<times> real) list"
  span_service_mapping :: "(string \<times> (string \<times> string)) list"

definition store_names :: "mappings \<Rightarrow> string \<Rightarrow> span_info list \<Rightarrow> int \<Rightarrow> mappings" where
  "store_names M sid sl span_index =
     (case names_at sl span_index of
        None \<Rightarrow> M
      | Some names \<Rightarrow> M\<lparr>span_service_mapping := dict_set (span_service_mapping M) sid names\<rparr>)"

text \<open>Baseline subtraction inside the per-trace top-1 branch (lines 319 to 336).\<close>

definition top1_adjusted_duration ::
  "constants \<Rightarrow> finder \<Rightarrow> span_info list \<Rightarrow> int \<Rightarrow> real \<Rightarrow> real" where
  "top1_adjusted_duration K self sl span_index truncated_duration =
     (case names_at sl span_index of
        None \<Rightarrow> truncated_duration
      | Some (service_name, span_name) \<Rightarrow>
          (case map_of (span_average_durations self) (combined_key service_name span_name) of
             None \<Rightarrow> truncated_duration
           | Some avg_duration \<Rightarrow>
               min (max 0 (truncated_duration - avg_duration)) (MAX_DURATION K)))"

fun adjusted_spans ::
  "constants \<Rightarrow> finder \<Rightarrow> span_info list \<Rightarrow> (string \<times> int \<times> duration_value) list
     \<Rightarrow> (string \<times> int \<times> real \<times> real) list" where
  "adjusted_spans K self sl [] = []"
| "adjusted_spans K self sl ((sid, span_index, NotNum) # rest) = adjusted_spans K self sl rest"
| "adjusted_spans K self sl ((sid, span_index, Num duration) # rest) =
     (if duration > 0 then
        (let truncated_duration = min duration (MAX_DURATION K)
         in (sid, span_index, top1_adjusted_duration K self sl span_index truncated_duration,
             truncated_duration) # adjusted_spans K self sl rest)
      else adjusted_spans K self sl rest)"

fun valid_spans ::
  "constants \<Rightarrow> (string \<times> int \<times> duration_value) list \<Rightarrow> (string \<times> int \<times> real) list" where
  "valid_spans K [] = []"
| "valid_spans K ((sid, span_index, NotNum) # rest) = valid_spans K rest"
| "valid_spans K ((sid, span_index, Num duration) # rest) =
     (if duration > 0 then (sid, span_index, min duration (MAX_DURATION K)) # valid_spans K rest
      else valid_spans K rest)"

text \<open>
  \<open>max(xs, key=f)\<close> returns the first element whose key is maximal; on an empty list
  it raises, which both call sites exclude by \<open>if adjusted_spans:\<close> and
  \<open>if valid_spans:\<close>.
\<close>

fun py_max_from :: "('a \<Rightarrow> real) \<Rightarrow> 'a \<Rightarrow> 'a list \<Rightarrow> 'a" where
  "py_max_from key best [] = best"
| "py_max_from key best (x # xs) = py_max_from key (if key x > key best then x else best) xs"

definition py_max :: "('a \<Rightarrow> real) \<Rightarrow> 'a list \<Rightarrow> 'a option" where
  "py_max key xs = (case xs of [] \<Rightarrow> None | x # rest \<Rightarrow> Some (py_max_from key x rest))"

text \<open>The branch that keeps every span (lines 406 to 425).\<close>

fun collect_all ::
  "constants \<Rightarrow> span_info list \<Rightarrow> mappings \<Rightarrow> (string \<times> int \<times> duration_value) list \<Rightarrow> mappings" where
  "collect_all K sl M [] = M"
| "collect_all K sl M ((sid, span_index, NotNum) # rest) = collect_all K sl M rest"
| "collect_all K sl M ((sid, span_index, Num duration) # rest) =
     (if duration > 0 then
        collect_all K sl
          (store_names
             (M\<lparr>span_duration_mapping :=
                  dict_set (span_duration_mapping M) sid (min duration (MAX_DURATION K))\<rparr>)
             sid sl span_index)
          rest
      else collect_all K sl M rest)"

definition zipped :: "excl_log \<Rightarrow> (string \<times> int \<times> duration_value) list" where
  "zipped row = zip (span_ids row) (zip (span_indices row) (exclusive_durations row))"

text \<open>One iteration of \<open>for log in logs\<close>.\<close>

definition collect_log :: "constants \<Rightarrow> finder \<Rightarrow> mappings \<Rightarrow> excl_log \<Rightarrow> mappings" where
  "collect_log K self M row =
     (if length (span_ids row) \<noteq> length (exclusive_durations row)
         \<or> length (span_ids row) \<noteq> length (span_indices row) then M
      else if only_top1_per_trace self then
        (if minus_average self \<and> span_average_durations self \<noteq> [] then
           (case py_max (\<lambda>(sid, span_index, adjusted_duration, original_duration). adjusted_duration)
                   (adjusted_spans K self (span_list row) (zipped row)) of
              None \<Rightarrow> M
            | Some (sid, span_index, adjusted_duration, original_duration) \<Rightarrow>
                store_names
                  (M\<lparr>span_duration_mapping := dict_set (span_duration_mapping M) sid original_duration\<rparr>)
                  sid (span_list row) span_index)
         else
           (case py_max (\<lambda>(sid, span_index, duration). duration) (valid_spans K (zipped row)) of
              None \<Rightarrow> M
            | Some (sid, span_index, duration) \<Rightarrow>
                store_names
                  (M\<lparr>span_duration_mapping := dict_set (span_duration_mapping M) sid duration\<rparr>)
                  sid (span_list row) span_index))
      else collect_all K (span_list row) M (zipped row))"

definition collect_logs :: "constants \<Rightarrow> finder \<Rightarrow> excl_log list \<Rightarrow> mappings" where
  "collect_logs K self logs =
     foldl (collect_log K self) \<lparr>span_duration_mapping = [], span_service_mapping = []\<rparr> logs"


subsection \<open>Baseline subtraction for the collected spans\<close>

text \<open>
  The loop body shared by \<open>_adjust_durations_directly\<close> (lines 649 to 673) and
  \<open>_adjust_durations_with_span_average\<close> (lines 597 to 620).
\<close>

definition adjust_one ::
  "constants \<Rightarrow> finder \<Rightarrow> (string \<times> (string \<times> string)) list \<Rightarrow> string \<times> real \<Rightarrow> string \<times> real" where
  "adjust_one K self service_mapping item =
     (case item of (sid, original_duration) \<Rightarrow>
        (case map_of service_mapping sid of
           None \<Rightarrow> (sid, original_duration)
         | Some (service_name, span_name) \<Rightarrow>
             (case map_of (span_average_durations self) (combined_key service_name span_name) of
                None \<Rightarrow> (sid, original_duration)
              | Some avg_duration \<Rightarrow>
                  (sid, min (max 0 (original_duration - avg_duration)) (MAX_DURATION K)))))"

definition adjust_durations_directly ::
  "constants \<Rightarrow> finder \<Rightarrow> (string \<times> real) list \<Rightarrow> (string \<times> (string \<times> string)) list
     \<Rightarrow> (string \<times> real) list" where
  "adjust_durations_directly K self duration_mapping service_mapping =
     map (adjust_one K self service_mapping) duration_mapping"

text \<open>\<open>sorted(span_ids, key=lambda x: span_duration_mapping[x], reverse=True)\<close>: a stable sort.\<close>

definition sorted_desc :: "(string \<times> real) list \<Rightarrow> string list" where
  "sorted_desc duration_mapping =
     sort_key (\<lambda>sid. - dict_get duration_mapping sid 0) (map fst duration_mapping)"

text \<open>\<open>for i in range(0, len(xs), batch_size): xs[i : i + batch_size]\<close> with batch size 500.\<close>

function batches :: "'a list \<Rightarrow> 'a list list" where
  "batches xs = (if xs = [] then [] else take 500 xs # batches (drop 500 xs))"
  by pat_completeness auto
termination
  by (relation "measure length") auto

declare batches.simps [simp del]

fun store_service_logs ::
  "(string \<times> (string \<times> string)) list \<Rightarrow> service_log list \<Rightarrow> (string \<times> (string \<times> string)) list" where
  "store_service_logs sm [] = sm"
| "store_service_logs sm (l # ls) =
     store_service_logs
       (case (log_spanId l, log_serviceName l, log_spanName l) of
          (Some sid, Some service_name, Some span_name) \<Rightarrow>
            if sid \<noteq> [] \<and> service_name \<noteq> [] \<and> span_name \<noteq> []
            then dict_set sm sid (service_name, span_name) else sm
        | _ \<Rightarrow> sm)
       ls"

text \<open>A batch whose lookup raises is skipped (lines 587 to 589).\<close>

fun query_batches ::
  "lookup \<Rightarrow> (string \<times> (string \<times> string)) list \<Rightarrow> string list list
     \<Rightarrow> (string \<times> (string \<times> string)) list" where
  "query_batches client sm [] = sm"
| "query_batches client sm (batch_span_ids # bs) =
     (case client batch_span_ids of
        Inl e \<Rightarrow> query_batches client sm bs
      | Inr service_logs \<Rightarrow> query_batches client (store_service_logs sm service_logs) bs)"

definition sampled_span_ids :: "nat \<Rightarrow> (string \<times> real) list \<Rightarrow> string list" where
  "sampled_span_ids cap duration_mapping =
     (if length duration_mapping > cap then take cap (sorted_desc duration_mapping)
      else map fst duration_mapping)"

text \<open>
  \<open>_adjust_durations_with_span_average\<close>: the result is paired with the batches sent to
  the collaborator, in order.
\<close>

definition adjust_durations_with_span_average ::
  "constants \<Rightarrow> finder \<Rightarrow> lookup \<Rightarrow> (string \<times> real) list
     \<Rightarrow> string list list \<times> (string \<times> real) list" where
  "adjust_durations_with_span_average K self client duration_mapping =
     (let bs = batches (sampled_span_ids (HIGH_RT_TRACES K) duration_mapping);
          service_mapping = query_batches client [] bs
      in (bs, map (adjust_one K self service_mapping) duration_mapping))"

subsection \<open>Ranking and the percentile cut (lines 481 to 511)\<close>

fun accumulate :: "real \<Rightarrow> real \<Rightarrow> (string \<times> real) list \<Rightarrow> string list" where
  "accumulate target_duration cumulative_duration [] = []"
| "accumulate target_duration cumulative_duration ((sid, duration) # rest) =
     (if cumulative_duration + duration \<ge> target_duration then [sid]
      else sid # accumulate target_duration (cumulative_duration + duration) rest)"

definition sort_desc :: "(string \<times> real) list \<Rightarrow> (string \<times> real) list" where
  "sort_desc adjusted_span_durations = sort_key (\<lambda>x. - snd x) adjusted_span_durations"

definition top_95_percent :: "constants \<Rightarrow> (string \<times> real) list \<Rightarrow> string list" where
  "top_95_percent K adjusted_span_durations =
     (let sorted_durations = sort_desc adjusted_span_durations;
          total_duration = sum_list (map snd sorted_durations)
      in if total_duration = 0 then []
         else accumulate (total_duration * PERCENT_95 K) 0 sorted_durations)"

subsection \<open>Strategy selection and the whole selector\<close>

datatype strategy = Direct | Resample | Unadjusted

text \<open>The branching of lines 441 to 479.\<close>

definition choose_strategy :: "finder \<Rightarrow> mappings \<Rightarrow> strategy" where
  "choose_strategy self M =
     (if minus_average self \<and> span_average_durations self \<noteq> [] then
        (if span_service_mapping M \<noteq> [] then
           (if real (length (span_service_mapping M)) / real (length (span_duration_mapping M)) > 0.5
            then Direct else Resample)
         else Resample)
      else Unadjusted)"

definition adjusted_span_durations ::
  "constants \<Rightarrow> finder \<Rightarrow> lookup \<Rightarrow> mappings \<Rightarrow> string list list \<times> (string \<times> real) list" where
  "adjusted_span_durations K self client M =
     (case choose_strategy self M of
        Direct \<Rightarrow>
          ([], adjust_durations_directly K self (span_duration_mapping M) (span_service_mapping M))
      | Resample \<Rightarrow> adjust_durations_with_span_average K self client (span_duration_mapping M)
      | Unadjusted \<Rightarrow>
          ([], map (\<lambda>(sid, duration). (sid, min duration (MAX_DURATION K))) (span_duration_mapping M)))"

text \<open>
  \<open>_process_exclusive_duration_data\<close>: the batches sent to the identity lookup, and the
  returned span ids.
\<close>

definition process_exclusive_duration_data ::
  "constants \<Rightarrow> finder \<Rightarrow> lookup \<Rightarrow> excl_log list \<Rightarrow> string list list \<times> string list" where
  "process_exclusive_duration_data K self client logs =
     (let M = collect_logs K self logs
      in if span_duration_mapping M = [] then ([], [])
         else (case adjusted_span_durations K self client M of
                 (queries, adjusted) \<Rightarrow> (queries, top_95_percent K adjusted)))"

text \<open>
  \<open>find_top_95_percent_spans\<close>: \<open>response\<close> is the answer to the exclusive-duration
  query, or the exception raised by it; every exception is turned into the empty list.
\<close>

definition find_top_95_percent_spans ::
  "constants \<Rightarrow> finder \<Rightarrow> lookup \<Rightarrow> py_error + excl_log list \<Rightarrow> string list" where
  "find_top_95_percent_spans K self client response =
     (case response of
        Inl e \<Rightarrow> []
      | Inr logs \<Rightarrow> snd (process_exclusive_duration_data K self client logs))"

section \<open>Baseline averages (\<open>_calculate_span_averages\<close>)\<close>

text \<open>The collecting loop of lines 810 to 826.\<close>

fun collect_positive ::
  "(string \<times> real) list \<Rightarrow> (string \<times> duration_value) list \<Rightarrow> (string \<times> real) list" where
  "collect_positive dm [] = dm"
| "collect_positive dm ((sid, NotNum) # rest) = collect_positive dm rest"
| "collect_positive dm ((sid, Num duration) # rest) =
     (if duration > 0 then collect_positive (dict_set dm sid duration) rest
      else collect_positive dm rest)"

definition collect_reference_log :: "(string \<times> real) list \<Rightarrow> excl_log \<Rightarrow> (string \<times> real) list" where
  "collect_reference_log dm row =
     (if length (span_ids row) \<noteq> length (exclusive_durations row) then dm
      else collect_positive dm (zip (span_ids row) (exclusive_durations row)))"

text \<open>The sampling step of \<open>_query_span_names_for_spans\<close> (lines 845 to 857).\<close>

definition retained :: "nat \<Rightarrow> (string \<times> real) list \<Rightarrow> (string \<times> real) list" where
  "retained cap duration_mapping =
     (if length duration_mapping > cap then
        map (\<lambda>sid. (sid, dict_get duration_mapping sid 0)) (take cap (sorted_desc duration_mapping))
      else duration_mapping)"

fun group_service_logs ::
  "(string \<times> real) list \<Rightarrow> (string \<times> real list) list \<Rightarrow> service_log list
     \<Rightarrow> (string \<times> real list) list" where
  "group_service_logs dm sd [] = sd"
| "group_service_logs dm sd (l # ls) =
     group_service_logs dm
       (case (log_spanId l, log_serviceName l, log_spanName l) of
          (Some sid, Some service_name, Some span_name) \<Rightarrow>
            (case map_of dm sid of
               None \<Rightarrow> sd
             | Some duration \<Rightarrow>
                 if service_name \<noteq> [] \<and> span_name \<noteq> [] then
                   dict_set sd (combined_key service_name span_name)
                     (dict_get sd (combined_key service_name span_name) [] @ [duration])
                 else sd)
        | _ \<Rightarrow> sd)
       ls"

fun group_batches ::
  "lookup \<Rightarrow> (string \<times> real) list \<Rightarrow> (string \<times> real list) list \<Rightarrow> string list list
     \<Rightarrow> (string \<times> real list) list" where
  "group_batches client dm sd [] = sd"
| "group_batches client dm sd (batch_span_ids # bs) =
     (case client batch_span_ids of
        Inl e \<Rightarrow> group_batches client dm sd bs
      | Inr service_logs \<Rightarrow> group_batches client dm (group_service_logs dm sd service_logs) bs)"

definition mean :: "real list \<Rightarrow> real" where
  "mean durations = sum_list durations / real (length durations)"

fun store_averages :: "(string \<times> real) list \<Rightarrow> (string \<times> real list) list \<Rightarrow> (string \<times> real) list" where
  "store_averages avgs [] = avgs"
| "store_averages avgs ((key, durations) # rest) =
     (if durations \<noteq> [] then store_averages (dict_set avgs key (mean durations)) rest
      else store_averages avgs rest)"

definition query_span_names_for_spans ::
  "constants \<Rightarrow> lookup \<Rightarrow> (string \<times> real) list \<Rightarrow> (string \<times> real) list" where
  "query_span_names_for_spans K client duration_mapping =
     (let dm = retained (TRACES_FOR_AVG_RT K) duration_mapping;
          service_durations = group_batches client dm [] (batches (map fst dm))
      in store_averages [] service_durations)"

text \<open>
  \<open>_calculate_span_averages\<close>: \<open>response\<close> is the answer to the exclusive-duration query
  over the normal period; the result is \<open>self.span_average_durations\<close>.
\<close>

definition calculate_span_averages ::
  "constants \<Rightarrow> lookup \<Rightarrow> py_error + excl_log list \<Rightarrow> (string \<times> real) list" where
  "calculate_span_averages K client response =
     (case response of
        Inl e \<Rightarrow> []
      | Inr logs \<Rightarrow>
          (let duration_mapping = foldl collect_reference_log [] logs
           in if duration_mapping \<noteq> [] then query_span_names_for_spans K client duration_mapping
              else []))"

text \<open>The constructor (lines 203 to 221).\<close>

definition init_finder ::
  "constants \<Rightarrow> lookup \<Rightarrow> py_error + excl_log list \<Rightarrow> string option \<Rightarrow> string option
     \<Rightarrow> bool \<Rightarrow> bool \<Rightarrow> finder" where
  "init_finder K client response normal_start_time normal_end_time minus_avg only_top1 =
     \<lparr>minus_average = minus_avg,
      only_top1_per_trace = only_top1,
      span_average_durations =
        (if minus_avg \<and> truthy normal_start_time \<and> truthy normal_end_time
         then calculate_span_averages K client response else [])\<rparr>"

section \<open>Properties of the error root-cause selector: vocabulary\<close>

text \<open>The integer status of a span, when the key is present and its text parses.\<close>

definition status_of :: "span \<Rightarrow> int option" where
  "status_of s = (case statusCode s of None \<Rightarrow> None | Some sc \<Rightarrow> py_int sc)"

definition is_error :: "span \<Rightarrow> bool" where
  "is_error s = (case status_of s of None \<Rightarrow> False | Some n \<Rightarrow> n > 1)"

definition has_keys :: "span \<Rightarrow> bool" where
  "has_keys s = (spanId s \<noteq> None \<and> parentSpanId s \<noteq> None \<and> statusCode s \<noteq> None)"

definition readable :: "span \<Rightarrow> bool" where
  "readable s = (spanId s \<noteq> None \<and> parentSpanId s \<noteq> None \<and> status_of s \<noteq> None)"

definition unparsable_status :: "span \<Rightarrow> bool" where
  "unparsable_status s = (case statusCode s of None \<Rightarrow> False | Some sc \<Rightarrow> py_int sc = None)"

definition unique_ids :: "span list \<Rightarrow> bool" where
  "unique_ids trace = (\<forall>s\<in>set trace. \<forall>s'\<in>set trace. spanId s = spanId s' \<longrightarrow> s = s')"

text \<open>
  Input as the data model describes it: every span of a trace carries its identifiers and
  an integer status, and a span id names one span of its trace.
\<close>

definition well_formed :: "span list \<Rightarrow> bool" where
  "well_formed spans \<longleftrightarrow>
     (\<forall>s\<in>set spans. truthy (traceId s) \<longrightarrow> readable s) \<and>
     (\<forall>s\<in>set spans. \<forall>s'\<in>set spans.
        truthy (traceId s) \<and> traceId s = traceId s' \<and> spanId s = spanId s' \<longrightarrow> s = s')"

text \<open>
  The root-cause spans of one trace in the words of the specification: the errored spans
  none of whose registered children (spans of the trace naming them as non-empty parent)
  errored.
\<close>

definition root_cause_ids :: "span list \<Rightarrow> string set" where
  "root_cause_ids trace =
     {sid. \<exists>s\<in>set trace. spanId s = Some sid \<and> is_error s \<and>
        (\<forall>c\<in>set trace. sid \<noteq> [] \<and> parentSpanId c = Some sid \<longrightarrow> \<not> is_error c)}"

definition spec_root_cause_spans :: "span list \<Rightarrow> string set" where
  "spec_root_cause_spans spans =
     {sid. \<exists>s\<in>set spans. truthy (traceId s) \<and> spanId s = Some sid \<and> is_error s \<and>
        (\<forall>c\<in>set spans. traceId c = traceId s \<and> sid \<noteq> [] \<and> parentSpanId c = Some sid
            \<longrightarrow> \<not> is_error c)}"

definition mk_span :: "string \<Rightarrow> string \<Rightarrow> string \<Rightarrow> string \<Rightarrow> span" where
  "mk_span t sid pid sc =
     \<lparr>traceId = Some t, spanId = Some sid, parentSpanId = Some pid, statusCode = Some sc\<rparr>"

text \<open>The chain A (status 0, no parent), B (status 2, child of A), C (status 2, child of B).\<close>

definition example_chain :: "span list" where
  "example_chain =
     [mk_span ''t1'' ''A'' '''' ''0'', mk_span ''t1'' ''B'' ''A'' ''2'', mk_span ''t1'' ''C'' ''B'' ''2'']"

text \<open>Two traces, each with one errored leaf.\<close>

definition example_two_traces :: "span list" where
  "example_two_traces =
     [mk_span ''t1'' ''A'' '''' ''0'', mk_span ''t2'' ''X'' '''' ''3'', mk_span ''t1'' ''B'' ''A'' ''2'']"

text \<open>An errored span followed by a span whose status code is not a number.\<close>

definition example_unparsable :: "span list" where
  "example_unparsable = [mk_span ''t1'' ''A'' '''' ''2'', mk_span ''t1'' ''B'' ''A'' ''abc'']"

definition keymap_inv :: "span list \<Rightarrow> trace_maps \<Rightarrow> bool" where
  "keymap_inv ss m \<longleftrightarrow>
     distinct (map fst (span_status m)) \<and>
     (\<forall>sid st. map_of (span_status m) sid = Some st \<longrightarrow>
        (\<exists>s\<in>set ss. spanId s = Some sid \<and> status_of s = Some st)) \<and>
     (\<forall>s\<in>set ss. \<forall>sid. spanId s = Some sid \<longrightarrow> map_of (span_status m) sid \<noteq> None) \<and>
     (\<forall>pid. set (dict_get (child_spans m) pid []) =
        {sid. \<exists>s\<in>set ss. spanId s = Some sid \<and> parentSpanId s = Some pid \<and> pid \<noteq> []})"

definition groups_inv :: "span list \<Rightarrow> (string \<times> span list) list \<Rightarrow> bool" where
  "groups_inv ss g \<longleftrightarrow> distinct (map fst g) \<and>
     (\<forall>t. map_of g t = (if t \<noteq> [] \<and> (\<exists>s\<in>set ss. traceId s = Some t)
                          then Some (filter (\<lambda>s. traceId s = Some t) ss) else None))"

section \<open>Properties of the percentile selector: vocabulary\<close>

text \<open>The defaults of \<open>config.py\<close> (lines 69 to 73) for the four constants.\<close>

definition example_constants :: constants where
  "example_constants = \<lparr>MAX_DURATION = 5000000, PERCENT_95 = 95 / 100, HIGH_RT_TRACES = 2000, TRACES_FOR_AVG_RT = 3000\<rparr>"

text \<open>Durations 70, 10, 10, 5, 5 of the spans a to e.\<close>

definition example_durations :: "(string \<times> real) list" where
  "example_durations = [(''a'', 70), (''b'', 10), (''c'', 10), (''d'', 5), (''e'', 5)]"

text \<open>The selector ranks durations that are not negative.\<close>

definition nonneg_durations :: "(string \<times> real) list \<Rightarrow> bool" where
  "nonneg_durations xs = list_all (\<lambda>x. 0 \<le> snd x) xs"

text \<open>
  What the collecting loop maintains: span ids are stored once, every stored duration is a
  positive raw duration cut at the ceiling, and names are stored only for collected spans.
\<close>

definition collected_inv :: "constants \<Rightarrow> mappings \<Rightarrow> bool" where
  "collected_inv K M \<longleftrightarrow>
     distinct (map fst (span_duration_mapping M)) \<and>
     distinct (map fst (span_service_mapping M)) \<and>
     (\<forall>(sid, d)\<in>set (span_duration_mapping M). \<exists>raw. 0 < raw \<and> d = min raw (MAX_DURATION K)) \<and>
     fst ` set (span_service_mapping M) \<subseteq> fst ` set (span_duration_mapping M)"

text \<open>One span id reported by two rows, with different durations.\<close>

definition example_repeated :: "excl_log list" where
  "example_repeated =
     [\<lparr>span_ids = [''s1'', ''s2''], span_indices = [0, 1], exclusive_durations = [Num 40, Num 10], span_list = []\<rparr>,
      \<lparr>span_ids = [''s1''], span_indices = [0], exclusive_durations = [Num 50], span_list = []\<rparr>]"

text \<open>A finder without normalization, and a collaborator whose lookups all fail.\<close>

definition plain_finder :: finder where
  "plain_finder = \<lparr>minus_average = False, only_top1_per_trace = False, span_average_durations = []\<rparr>"

definition no_lookup :: lookup where
  "no_lookup batch = Inl QueryError"

text \<open>A finder asked to normalize against the baseline of one operation.\<close>

definition normalizing_finder :: finder where
  "normalizing_finder =
     \<lparr>minus_average = True, only_top1_per_trace = False,
      span_average_durations = [(''svc<sep>op'', 200)]\<rparr>"

text \<open>Two spans, of which only the first carries its names: a coverage of exactly one half.\<close>

definition example_half_covered :: "excl_log list" where
  "example_half_covered =
     [\<lparr>span_ids = [''s1'', ''s2''], span_indices = [0, 1],
       exclusive_durations = [Num 500, Num 400],
       span_list = [InfoDict [(''servicename'', ''svc''), (''spanname'', ''op'')], InfoOther]\<rparr>]"

text \<open>Two spans that both carry their names.\<close>

definition example_fully_covered :: "excl_log list" where
  "example_fully_covered =
     [\<lparr>span_ids = [''s1'', ''s2''], span_indices = [0, 1],
       exclusive_durations = [Num 500, Num 400],
       span_list = [InfoDict [(''servicename'', ''svc''), (''spanname'', ''op'')],
                    InfoList [''s2'', ''s1'', ''0'', ''svc'', ''other'']]\<rparr>]"

text \<open>Normalization requested, but no normal period given to the constructor.\<close>

definition finder_without_baseline :: finder where
  "finder_without_baseline =
     init_finder example_constants no_lookup (Inr []) None None True False"

text \<open>
  The adjusted duration in the words of the specification: for a span with resolved
  names, the clamped raw duration minus the baseline of its key (0 when the key has no
  baseline), floored at 0 and clamped again; for a span without names, the clamped raw
  duration.
\<close>

definition spec_adjusted :: "constants \<Rightarrow> finder \<Rightarrow> (string \<times> string) option \<Rightarrow> real \<Rightarrow> real" where
  "spec_adjusted K self identity clamped =
     (case identity of
        None \<Rightarrow> clamped
      | Some (service_name, operation_name) \<Rightarrow>
          min (max 0 (clamped - dict_get (span_average_durations self)
                                   (combined_key service_name operation_name) 0))
              (MAX_DURATION K))"

text \<open>The names a span is given by the strategy in force.\<close>

definition resolved_identity ::
  "constants \<Rightarrow> finder \<Rightarrow> lookup \<Rightarrow> mappings \<Rightarrow> string \<Rightarrow> (string \<times> string) option" where
  "resolved_identity K self client M =
     (case choose_strategy self M of
        Direct \<Rightarrow> map_of (span_service_mapping M)
      | Resample \<Rightarrow>
          map_of (query_batches client []
                    (batches (sampled_span_ids (HIGH_RT_TRACES K) (span_duration_mapping M))))
      | Unadjusted \<Rightarrow> (\<lambda>sid. None))"

text \<open>Baselines 200 and 600 for two operations of one service.\<close>

definition baseline_finder :: finder where
  "baseline_finder =
     \<lparr>minus_average = True, only_top1_per_trace = False,
      span_average_durations = [(''svc<sep>op'', 200), (''svc<sep>slow'', 600)]\<rparr>"

text \<open>Three spans of raw duration 500, 500 and 400; the third carries no names.\<close>

definition example_normalization :: "excl_log list" where
  "example_normalization =
     [\<lparr>span_ids = [''s1'', ''s2'', ''s3''], span_indices = [0, 1, 2],
       exclusive_durations = [Num 500, Num 500, Num 400],
       span_list = [InfoDict [(''servicename'', ''svc''), (''spanname'', ''op'')],
                    InfoDict [(''serviceName'', ''svc''), (''spanName'', ''slow'')],
                    InfoOther]\<rparr>]"

text \<open>Per-trace top-1 with normalization, with baselines 2, 10 and 1 for three operations.\<close>

definition top1_finder :: finder where
  "top1_finder =
     \<lparr>minus_average = True, only_top1_per_trace = True,
      span_average_durations = [(''svc<sep>a'', 2), (''svc<sep>b'', 10), (''svc<sep>c'', 1)]\<rparr>"

text \<open>One trace with the spans A (raw 10, baseline 2), B (raw 12, baseline 10), C (raw 8, baseline 1).\<close>

definition example_top1_row :: excl_log where
  "example_top1_row =
     \<lparr>span_ids = [''A'', ''B'', ''C''], span_indices = [0, 1, 2],
       exclusive_durations = [Num 10, Num 12, Num 8],
       span_list = [InfoDict [(''servicename'', ''svc''), (''spanname'', ''a'')],
                    InfoDict [(''servicename'', ''svc''), (''spanname'', ''b'')],
                    InfoDict [(''servicename'', ''svc''), (''spanname'', ''c'')]]\<rparr>"

text \<open>
  One trace whose spans y (raw 7, baseline 2) and x (raw 6, baseline 1) both have the
  adjusted duration 5; y comes first in the row, x is the smaller span id.
\<close>

definition example_tie_row :: excl_log where
  "example_tie_row =
     \<lparr>span_ids = [''y'', ''x''], span_indices = [0, 1],
       exclusive_durations = [Num 7, Num 6],
       span_list = [InfoDict [(''servicename'', ''svc''), (''spanname'', ''a'')],
                    InfoDict [(''servicename'', ''svc''), (''spanname'', ''c'')]]\<rparr>"

text \<open>The candidates of a row in the per-trace top-1 branch with normalization.\<close>

definition top1_candidates :: "constants \<Rightarrow> finder \<Rightarrow> excl_log \<Rightarrow> (string \<times> int \<times> real \<times> real) list" where
  "top1_candidates K self row = adjusted_spans K self (span_list row) (zipped row)"

definition adjusted_of :: "string \<times> int \<times> real \<times> real \<Rightarrow> real" where
  "adjusted_of c = (case c of (sid, span_index, adjusted_duration, original_duration) \<Rightarrow> adjusted_duration)"

text \<open>The spans of a row with a positive numeric duration, in row order.\<close>

fun positive_spans :: "(string \<times> int \<times> duration_value) list \<Rightarrow> (string \<times> int \<times> real) list" where
  "positive_spans [] = []"
| "positive_spans ((sid, span_index, NotNum) # rest) = positive_spans rest"
| "positive_spans ((sid, span_index, Num duration) # rest) =
     (if duration > 0 then (sid, span_index, duration) # positive_spans rest else positive_spans rest)"

text \<open>A collaborator that knows every span as operation \<open>op\<close> of service \<open>svc\<close>.\<close>

definition example_lookup :: lookup where
  "example_lookup batch =
     Inr (map (\<lambda>sid. \<lparr>log_spanId = Some sid, log_serviceName = Some ''svc'',
                       log_spanName = Some ''op''\<rparr>) batch)"

text \<open>A row with one span whose exclusive duration, 6000000, exceeds the ceiling 5000000.\<close>

definition example_outlier_row :: excl_log where
  "example_outlier_row =
     \<lparr>span_ids = [''s1''], span_indices = [0], exclusive_durations = [Num 6000000],
      span_list = []\<rparr>"

text \<open>The rows returned by the batches whose lookup did not raise, in order.\<close>

definition answered :: "lookup \<Rightarrow> string list list \<Rightarrow> service_log list" where
  "answered client bs = concat (map (\<lambda>b. case client b of Inl e \<Rightarrow> [] | Inr ls \<Rightarrow> ls) bs)"

text \<open>
  The duration samples of one baseline key: for every returned row that names a retained
  span and carries both names, the retained duration of that span.
\<close>

definition sample_of :: "(string \<times> real) list \<Rightarrow> string \<Rightarrow> service_log \<Rightarrow> real list" where
  "sample_of dm k l =
     (case (log_spanId l, log_serviceName l, log_spanName l) of
        (Some sid, Some service_name, Some span_name) \<Rightarrow>
          (case map_of dm sid of
             None \<Rightarrow> []
           | Some duration \<Rightarrow>
               if service_name \<noteq> [] \<and> span_name \<noteq> [] \<and> combined_key service_name span_name = k
               then [duration] else [])
      | _ \<Rightarrow> [])"

definition key_samples :: "(string \<times> real) list \<Rightarrow> service_log list \<Rightarrow> string \<Rightarrow> real list" where
  "key_samples dm ls k = concat (map (sample_of dm k) ls)"

definition no_positive_duration :: "excl_log list \<Rightarrow> bool" where
  "no_positive_duration logs =
     list_all (\<lambda>row. list_all (\<lambda>v. case v of Num d \<Rightarrow> \<not> d > 0 | NotNum \<Rightarrow> True)
                        (exclusive_durations row)) logs"

text \<open>
  A sample of the reference window: a positive numeric duration listed for the span in a
  row whose two arrays have the same length.
\<close>

definition reference_sample :: "excl_log list \<Rightarrow> string \<Rightarrow> real \<Rightarrow> bool" where
  "reference_sample logs sid d \<longleftrightarrow>
     0 < d \<and> (\<exists>row\<in>set logs. length (span_ids row) = length (exclusive_durations row) \<and>
                (sid, Num d) \<in> set (zip (span_ids row) (exclusive_durations row)))"

text \<open>The constants with a sampling cap of 2 for the baseline.\<close>

definition small_cap_constants :: constants where
  "small_cap_constants = example_constants\<lparr>TRACES_FOR_AVG_RT := 2\<rparr>"

text \<open>A reference window with three spans of duration 100, 300 and 200, and one of duration 0.\<close>

definition example_reference :: "excl_log list" where
  "example_reference =
     [\<lparr>span_ids = [''s1'', ''s2'', ''s3'', ''s4''], span_indices = [0, 1, 2, 3],
       exclusive_durations = [Num 100, Num 300, Num 200, Num 0], span_list = []\<rparr>]"


section \<open>Proofs: dictionaries\<close>
lemma map_of_dict_set: "map_of (dict_set d k v) = (map_of d)(k \<mapsto> v)"
  by (induction d) (auto simp: fun_eq_iff)

lemma keys_dict_set: "fst ` set (dict_set d k v) = insert k (fst ` set d)"
  by (simp add: map_of_dict_set flip: dom_map_of_conv_image_fst)

lemma distinct_dict_set: "distinct (map fst d) \<Longrightarrow> distinct (map fst (dict_set d k v))"
  by (induction d) (auto simp: keys_dict_set)

lemma dict_get_dict_set: "dict_get (dict_set d k v) k' dflt = (if k' = k then v else dict_get d k' dflt)"
  by (simp add: dict_get_def map_of_dict_set)

lemma build_maps_append:
  "build_maps m (xs @ ys) = (case build_maps m xs of Inl e \<Rightarrow> Inl e | Inr m' \<Rightarrow> build_maps m' ys)"
  by (induction xs arbitrary: m) (auto split: sum.splits)

lemma group_traces_append: "group_traces g (xs @ ys) = group_traces (group_traces g xs) ys"
  by (induction xs arbitrary: g) (auto split: option.splits)



lemma register_span_readable:
  "readable s \<Longrightarrow> \<exists>m'. register_span m s = Inr m'"
  by (auto simp: readable_def status_of_def register_span_def Let_def split: option.splits)

lemma register_span_Inr:
  assumes "register_span m s = Inr m'"
  obtains sid pid st where "spanId s = Some sid" "parentSpanId s = Some pid" "status_of s = Some st"
    "span_status m' = dict_set (span_status m) sid st"
    "child_spans m' = (if pid \<noteq> [] then dict_set (child_spans m) pid (dict_get (child_spans m) pid [] @ [sid]) else child_spans m)"
  using assms
  by (auto simp: status_of_def register_span_def Let_def split: option.splits if_splits)


lemma keymap_inv_empty: "keymap_inv [] empty_maps"
  by (simp add: keymap_inv_def empty_maps_def dict_get_def)

lemma keymap_inv_step:
  assumes inv: "keymap_inv ss m" and reg: "register_span m s = Inr m'"
  shows "keymap_inv (ss @ [s]) m'"
proof -
  from reg obtain sid pid st where f: "spanId s = Some sid" "parentSpanId s = Some pid" "status_of s = Some st"
    "span_status m' = dict_set (span_status m) sid st"
    "child_spans m' = (if pid \<noteq> [] then dict_set (child_spans m) pid (dict_get (child_spans m) pid [] @ [sid]) else child_spans m)"
    by (rule register_span_Inr)
  have d: "distinct (map fst (span_status m'))"
    using inv f(4) by (simp add: keymap_inv_def distinct_dict_set)
  have a: "\<forall>sid' st'. map_of (span_status m') sid' = Some st' \<longrightarrow> (\<exists>x\<in>set (ss @ [s]). spanId x = Some sid' \<and> status_of x = Some st')"
    using inv f(1,3,4) by (auto simp: keymap_inv_def map_of_dict_set split: if_splits)
  have b: "\<forall>x\<in>set (ss @ [s]). \<forall>sid'. spanId x = Some sid' \<longrightarrow> map_of (span_status m') sid' \<noteq> None"
    using inv f(1,4) by (auto simp: keymap_inv_def map_of_dict_set)
  have c: "\<forall>p. set (dict_get (child_spans m') p []) = {sid'. \<exists>x\<in>set (ss @ [s]). spanId x = Some sid' \<and> parentSpanId x = Some p \<and> p \<noteq> []}"
  proof
    fix p
    have old: "set (dict_get (child_spans m) p []) = {sid'. \<exists>x\<in>set ss. spanId x = Some sid' \<and> parentSpanId x = Some p \<and> p \<noteq> []}"
      using inv by (simp add: keymap_inv_def)
    show "set (dict_get (child_spans m') p []) = {sid'. \<exists>x\<in>set (ss @ [s]). spanId x = Some sid' \<and> parentSpanId x = Some p \<and> p \<noteq> []}"
      using old f(1,2,5) by (auto simp: dict_get_dict_set)
  qed
  show ?thesis unfolding keymap_inv_def using d a b c by blast
qed

lemma build_keymap_inv:
  "\<forall>s\<in>set ss. readable s \<Longrightarrow> \<exists>m. build_maps empty_maps ss = Inr m \<and> keymap_inv ss m"
proof (induction ss rule: rev_induct)
  case Nil
  then show ?case by (simp add: keymap_inv_empty)
next
  case (snoc s ss)
  then obtain m where m: "build_maps empty_maps ss = Inr m" "keymap_inv ss m" by auto
  from snoc.prems obtain m' where r: "register_span m s = Inr m'"
    using register_span_readable[of s m] by auto
  with m show ?case
    by (auto simp: build_maps_append intro: keymap_inv_step)
qed





lemma set_error_spans:
  assumes "distinct (map fst (span_status m))"
  shows "set (error_spans m) = {sid. \<exists>st. map_of (span_status m) sid = Some st \<and> st > 1}"
  using assms by (auto simp: error_spans_def image_iff map_of_eq_Some_iff)

lemma is_root_alt:
  "is_root m sid = list_all (\<lambda>c. \<not> dict_get (span_status m) c 0 > 1) (dict_get (child_spans m) sid [])"
  by (simp add: is_root_def dict_get_def split: option.splits)

lemma keymap_inv_distinct: "keymap_inv ss m \<Longrightarrow> distinct (map fst (span_status m))"
  unfolding keymap_inv_def by blast

lemma keymap_inv_sound:
  "keymap_inv ss m \<Longrightarrow> map_of (span_status m) sid = Some st \<Longrightarrow>
   \<exists>s\<in>set ss. spanId s = Some sid \<and> status_of s = Some st"
  unfolding keymap_inv_def by blast

lemma keymap_inv_complete:
  "keymap_inv ss m \<Longrightarrow> s \<in> set ss \<Longrightarrow> spanId s = Some sid \<Longrightarrow> \<exists>st. map_of (span_status m) sid = Some st"
  unfolding keymap_inv_def by blast

lemma keymap_inv_children:
  "keymap_inv ss m \<Longrightarrow> set (dict_get (child_spans m) pid []) =
     {sid. \<exists>s\<in>set ss. spanId s = Some sid \<and> parentSpanId s = Some pid \<and> pid \<noteq> []}"
  unfolding keymap_inv_def by blast

lemma keymap_inv_status:
  assumes inv: "keymap_inv ss m" and u: "unique_ids ss" and s: "s \<in> set ss" "spanId s = Some sid"
  shows "map_of (span_status m) sid = status_of s" "status_of s \<noteq> None"
proof -
  from keymap_inv_complete[OF inv s] obtain st where st: "map_of (span_status m) sid = Some st"
    by blast
  from keymap_inv_sound[OF inv st] obtain s' where "s' \<in> set ss" "spanId s' = Some sid" "status_of s' = Some st"
    by blast
  with u s have "s' = s" by (auto simp: unique_ids_def)
  with st \<open>status_of s' = Some st\<close> show "map_of (span_status m) sid = status_of s" "status_of s \<noteq> None"
    by auto
qed

lemma process_one_trace_log_correct:
  assumes r: "\<forall>s\<in>set trace. readable s" and u: "unique_ids trace"
  shows "\<exists>r. process_one_trace_log trace = Inr r \<and> set r = root_cause_ids trace"
proof -
  from build_keymap_inv[OF r] obtain m where m: "build_maps empty_maps trace = Inr m" "keymap_inv trace m"
    by auto
  have d: "distinct (map fst (span_status m))" using m(2) by (rule keymap_inv_distinct)
  have ch: "\<And>pid. set (dict_get (child_spans m) pid []) = {sid. \<exists>s\<in>set trace. spanId s = Some sid \<and> parentSpanId s = Some pid \<and> pid \<noteq> []}"
    using m(2) by (rule keymap_inv_children)
  have err: "\<And>s sid. s \<in> set trace \<Longrightarrow> spanId s = Some sid \<Longrightarrow> (dict_get (span_status m) sid 0 > 1) = is_error s"
    using keymap_inv_status[OF m(2) u]
    by (fastforce simp: dict_get_def is_error_def split: option.splits)
  have root: "\<And>sid. is_root m sid \<longleftrightarrow> (\<forall>c\<in>set trace. sid \<noteq> [] \<and> parentSpanId c = Some sid \<longrightarrow> \<not> is_error c)"
  proof -
    fix sid
    have "is_root m sid \<longleftrightarrow> (\<forall>cid\<in>{cid. \<exists>c\<in>set trace. spanId c = Some cid \<and> parentSpanId c = Some sid \<and> sid \<noteq> []}. \<not> dict_get (span_status m) cid 0 > 1)"
      by (simp only: is_root_alt list_all_iff ch)
    also have "\<dots> \<longleftrightarrow> (\<forall>c\<in>set trace. sid \<noteq> [] \<and> parentSpanId c = Some sid \<longrightarrow> \<not> is_error c)"
    proof
      assume a: "\<forall>cid\<in>{cid. \<exists>c\<in>set trace. spanId c = Some cid \<and> parentSpanId c = Some sid \<and> sid \<noteq> []}. \<not> dict_get (span_status m) cid 0 > 1"
      show "\<forall>c\<in>set trace. sid \<noteq> [] \<and> parentSpanId c = Some sid \<longrightarrow> \<not> is_error c"
      proof (intro ballI impI)
        fix c assume c: "c \<in> set trace" "sid \<noteq> [] \<and> parentSpanId c = Some sid"
        from r c(1) obtain cid where cid: "spanId c = Some cid" by (auto simp: readable_def)
        with a c have "\<not> dict_get (span_status m) cid 0 > 1" by blast
        with err[OF c(1) cid] show "\<not> is_error c" by simp
      qed
    next
      assume a: "\<forall>c\<in>set trace. sid \<noteq> [] \<and> parentSpanId c = Some sid \<longrightarrow> \<not> is_error c"
      show "\<forall>cid\<in>{cid. \<exists>c\<in>set trace. spanId c = Some cid \<and> parentSpanId c = Some sid \<and> sid \<noteq> []}. \<not> dict_get (span_status m) cid 0 > 1"
        using a err by blast
    qed
    finally show "is_root m sid \<longleftrightarrow> (\<forall>c\<in>set trace. sid \<noteq> [] \<and> parentSpanId c = Some sid \<longrightarrow> \<not> is_error c)" .
  qed
  have es: "set (error_spans m) = {sid. \<exists>s\<in>set trace. spanId s = Some sid \<and> is_error s}"
  proof (rule set_eqI)
    fix sid
    show "sid \<in> set (error_spans m) \<longleftrightarrow> sid \<in> {sid. \<exists>s\<in>set trace. spanId s = Some sid \<and> is_error s}"
    proof
      assume "sid \<in> set (error_spans m)"
      then obtain st where st: "map_of (span_status m) sid = Some st" "st > 1"
        by (auto simp: set_error_spans[OF d])
      from keymap_inv_sound[OF m(2) st(1)] obtain s where "s \<in> set trace" "spanId s = Some sid" "status_of s = Some st"
        by blast
      with st(2) show "sid \<in> {sid. \<exists>s\<in>set trace. spanId s = Some sid \<and> is_error s}"
        by (auto simp: is_error_def)
    next
      assume "sid \<in> {sid. \<exists>s\<in>set trace. spanId s = Some sid \<and> is_error s}"
      then obtain s where s: "s \<in> set trace" "spanId s = Some sid" "is_error s" by auto
      from keymap_inv_status(1)[OF m(2) u s(1,2)] s(3)
      show "sid \<in> set (error_spans m)"
        by (auto simp: set_error_spans[OF d] is_error_def split: option.splits)
    qed
  qed
  have "set (filter (is_root m) (error_spans m)) = root_cause_ids trace"
    unfolding root_cause_ids_def set_filter es using root by blast
  with m(1) show ?thesis by (simp add: process_one_trace_log_def)
qed




lemma filter_none: "\<not> (\<exists>s\<in>set ss. P s) \<Longrightarrow> filter P ss = []"
  by (induction ss) auto

lemma groups_inv_step:
  assumes inv: "groups_inv ss g"
  shows "groups_inv (ss @ [s]) (group_traces g [s])"
proof (cases "traceId s")
  case None
  then show ?thesis using inv by (auto simp: groups_inv_def)
next
  case (Some t0)
  show ?thesis
  proof (cases "t0 = []")
    case True
    with Some inv show ?thesis by (auto simp: groups_inv_def)
  next
    case False
    have old: "dict_get g t0 [] = filter (\<lambda>s. traceId s = Some t0) ss"
      using inv False by (auto simp: groups_inv_def dict_get_def filter_none)
    have g': "group_traces g [s] = dict_set g t0 (filter (\<lambda>s. traceId s = Some t0) ss @ [s])"
      using Some False old by simp
    have d: "distinct (map fst (group_traces g [s]))"
      unfolding g' using inv by (simp add: groups_inv_def distinct_dict_set)
    have m: "\<And>t. map_of (group_traces g [s]) t = (if t \<noteq> [] \<and> (\<exists>x\<in>set (ss @ [s]). traceId x = Some t)
                          then Some (filter (\<lambda>x. traceId x = Some t) (ss @ [s])) else None)"
      unfolding g' map_of_dict_set using inv Some False by (auto simp: groups_inv_def)
    show ?thesis unfolding groups_inv_def using d m by blast
  qed
qed

lemma group_traces_inv: "groups_inv ss (group_traces [] ss)"
proof (induction ss rule: rev_induct)
  case Nil
  show ?case by (simp add: groups_inv_def)
next
  case (snoc s ss)
  then show ?case by (simp only: group_traces_append groups_inv_step)
qed

lemma set_groups:
  assumes "groups_inv ss g"
  shows "set g = {(t, filter (\<lambda>s. traceId s = Some t) ss) | t. t \<noteq> [] \<and> (\<exists>s\<in>set ss. traceId s = Some t)}"
proof -
  have d: "distinct (map fst g)" using assms unfolding groups_inv_def by blast
  have m: "\<And>t. map_of g t = (if t \<noteq> [] \<and> (\<exists>s\<in>set ss. traceId s = Some t)
                          then Some (filter (\<lambda>s. traceId s = Some t) ss) else None)"
    using assms unfolding groups_inv_def by blast
  have "\<And>t l. (t, l) \<in> set g \<longleftrightarrow> map_of g t = Some l"
    using d by simp
  then show ?thesis by (auto simp: m split: if_splits)
qed

lemma process_groups_ok:
  assumes "\<forall>(t, l)\<in>set g. \<exists>r. process_one_trace_log l = Inr r \<and> set r = R l"
  shows "\<exists>r. process_groups g = Inr r \<and> set r = (\<Union>(t, l)\<in>set g. R l)"
  using assms
proof (induction g)
  case Nil
  then show ?case by simp
next
  case (Cons a g)
  obtain t l where a: "a = (t, l)" by (cases a)
  from Cons.prems a obtain r1 where r1: "process_one_trace_log l = Inr r1" "set r1 = R l" by auto
  from Cons obtain r2 where r2: "process_groups g = Inr r2" "set r2 = (\<Union>(t, l)\<in>set g. R l)" by auto
  show ?case using a r1 r2 by simp
qed



lemma find_root_cause_spans_correct:
  assumes wf: "well_formed spans"
  shows "\<exists>r. find_root_cause_spans spans = Inr r \<and> set r = spec_root_cause_spans spans"
proof -
  let ?g = "group_traces [] spans"
  have sg: "set ?g = {(t, filter (\<lambda>s. traceId s = Some t) spans) | t. t \<noteq> [] \<and> (\<exists>s\<in>set spans. traceId s = Some t)}"
    using group_traces_inv by (rule set_groups)
  have each: "\<forall>(t, l)\<in>set ?g. \<exists>r. process_one_trace_log l = Inr r \<and> set r = root_cause_ids l"
  proof (clarify)
    fix t l assume "(t, l) \<in> set ?g"
    with sg have l: "l = filter (\<lambda>s. traceId s = Some t) spans" and t: "t \<noteq> []" by auto
    have r: "\<forall>s\<in>set l. readable s" using wf l t by (auto simp: well_formed_def truthy_def)
    have u: "unique_ids l" unfolding unique_ids_def
    proof (intro ballI impI)
      fix s s' assume "s \<in> set l" "s' \<in> set l" "spanId s = spanId s'"
      then show "s = s'" using wf l t unfolding well_formed_def
        by (auto simp: truthy_def)
    qed
    show "\<exists>r. process_one_trace_log l = Inr r \<and> set r = root_cause_ids l"
      using r u by (rule process_one_trace_log_correct)
  qed
  from process_groups_ok[of ?g root_cause_ids, OF each]
  obtain r where r: "process_groups ?g = Inr r" "set r = (\<Union>(t, l)\<in>set ?g. root_cause_ids l)" by blast
  have "(\<Union>(t, l)\<in>set ?g. root_cause_ids l) = spec_root_cause_spans spans" (is "?L = ?R")
  proof (rule set_eqI)
    fix sid
    show "sid \<in> ?L \<longleftrightarrow> sid \<in> ?R"
    proof
      assume "sid \<in> ?L"
      then obtain t where t: "t \<noteq> []" and m: "sid \<in> root_cause_ids (filter (\<lambda>s. traceId s = Some t) spans)"
        unfolding sg by auto
      from m obtain s where s: "s \<in> set spans" "traceId s = Some t" "spanId s = Some sid" "is_error s"
        and c: "\<forall>c\<in>set spans. traceId c = Some t \<longrightarrow> sid \<noteq> [] \<and> parentSpanId c = Some sid \<longrightarrow> \<not> is_error c"
        unfolding root_cause_ids_def by auto
      have "truthy (traceId s)" using s(2) t by (simp add: truthy_def)
      moreover have "\<forall>c\<in>set spans. traceId c = traceId s \<and> sid \<noteq> [] \<and> parentSpanId c = Some sid \<longrightarrow> \<not> is_error c"
        using c s(2) by simp
      ultimately show "sid \<in> ?R" unfolding spec_root_cause_spans_def
        using s by blast
    next
      assume "sid \<in> ?R"
      then obtain s where s: "s \<in> set spans" "truthy (traceId s)" "spanId s = Some sid" "is_error s"
        and c: "\<forall>c\<in>set spans. traceId c = traceId s \<and> sid \<noteq> [] \<and> parentSpanId c = Some sid \<longrightarrow> \<not> is_error c"
        unfolding spec_root_cause_spans_def by auto
      from s(2) obtain t where t: "traceId s = Some t" "t \<noteq> []"
        by (auto simp: truthy_def split: option.splits)
      have "sid \<in> root_cause_ids (filter (\<lambda>s. traceId s = Some t) spans)"
        unfolding root_cause_ids_def using s c t by auto
      moreover have "(t, filter (\<lambda>s. traceId s = Some t) spans) \<in> set ?g"
        unfolding sg using s(1) t by auto
      ultimately show "sid \<in> ?L" by blast
    qed
  qed
  with r show ?thesis by (simp add: find_root_cause_spans_def)
qed

section \<open>Proofs: the collecting loop\<close>

lemma set_dict_set_subset: "set (dict_set d k v) \<subseteq> insert (k, v) (set d)"
  by (induction d) (auto split: if_splits)

lemma collected_inv_store_names:
  assumes "collected_inv K M" "sid \<in> fst ` set (span_duration_mapping M)"
  shows "collected_inv K (store_names M sid sl i)"
  using assms
  by (auto simp: collected_inv_def store_names_def distinct_dict_set keys_dict_set split: option.splits)

lemma collected_inv_set:
  assumes inv: "collected_inv K M" and raw: "0 < raw"
  shows "collected_inv K (M\<lparr>span_duration_mapping := dict_set (span_duration_mapping M) sid (min raw (MAX_DURATION K))\<rparr>)"
proof -
  let ?d = "dict_set (span_duration_mapping M) sid (min raw (MAX_DURATION K))"
  have 1: "distinct (map fst ?d)" using inv by (simp add: collected_inv_def distinct_dict_set)
  have 2: "\<forall>(s, d)\<in>set ?d. \<exists>raw. 0 < raw \<and> d = min raw (MAX_DURATION K)"
  proof (clarify)
    fix s d assume "(s, d) \<in> set ?d"
    with set_dict_set_subset[of "span_duration_mapping M" sid "min raw (MAX_DURATION K)"]
    have "(s, d) = (sid, min raw (MAX_DURATION K)) \<or> (s, d) \<in> set (span_duration_mapping M)" by auto
    then show "\<exists>raw. 0 < raw \<and> d = min raw (MAX_DURATION K)"
      using inv raw unfolding collected_inv_def by blast
  qed
  have 3: "fst ` set (span_service_mapping M) \<subseteq> fst ` set ?d"
    using inv by (auto simp: collected_inv_def keys_dict_set)
  show ?thesis unfolding collected_inv_def using 1 2 3 inv by (simp add: collected_inv_def)
qed

lemma collected_inv_set_names:
  assumes inv: "collected_inv K M" and raw: "0 < raw"
  shows "collected_inv K (store_names
          (M\<lparr>span_duration_mapping := dict_set (span_duration_mapping M) sid (min raw (MAX_DURATION K))\<rparr>)
          sid sl i)"
  by (rule collected_inv_store_names[OF collected_inv_set[OF inv raw]]) (simp add: keys_dict_set)

lemma collected_inv_collect_all:
  "collected_inv K M \<Longrightarrow> collected_inv K (collect_all K sl M zs)"
  by (induction K sl M zs rule: collect_all.induct) (auto intro: collected_inv_set_names)

lemma py_max_from_mem: "py_max_from key best xs \<in> insert best (set xs)"
  by (induction xs arbitrary: best) (auto split: if_splits)

lemma py_max_mem: "py_max key xs = Some x \<Longrightarrow> x \<in> set xs"
  using py_max_from_mem[of key] by (auto simp: py_max_def split: list.splits)

lemma adjusted_spans_mem:
  "(sid, i, adj, orig) \<in> set (adjusted_spans K self sl zs) \<Longrightarrow> \<exists>raw. 0 < raw \<and> orig = min raw (MAX_DURATION K)"
  by (induction K self sl zs rule: adjusted_spans.induct) (auto simp: Let_def split: if_splits)

lemma valid_spans_mem:
  "(sid, i, d) \<in> set (valid_spans K zs) \<Longrightarrow> \<exists>raw. 0 < raw \<and> d = min raw (MAX_DURATION K)"
  by (induction K zs rule: valid_spans.induct) (auto split: if_splits)

lemma collected_inv_collect_log:
  assumes inv: "collected_inv K M"
  shows "collected_inv K (collect_log K self M row)"
proof -
  have a: "\<And>sid i adj orig. py_max (\<lambda>(sid, span_index, adjusted_duration, original_duration). adjusted_duration)
                   (adjusted_spans K self (span_list row) (zipped row)) = Some (sid, i, adj, orig) \<Longrightarrow>
      collected_inv K (store_names (M\<lparr>span_duration_mapping := dict_set (span_duration_mapping M) sid orig\<rparr>) sid (span_list row) i)"
  proof -
    fix sid i adj orig
    assume "py_max (\<lambda>(sid, span_index, adjusted_duration, original_duration). adjusted_duration)
                   (adjusted_spans K self (span_list row) (zipped row)) = Some (sid, i, adj, orig)"
    from adjusted_spans_mem[OF py_max_mem[OF this]] obtain raw where "0 < raw" "orig = min raw (MAX_DURATION K)" by blast
    then show "collected_inv K (store_names (M\<lparr>span_duration_mapping := dict_set (span_duration_mapping M) sid orig\<rparr>) sid (span_list row) i)"
      using collected_inv_set_names[OF inv] by simp
  qed
  have b: "\<And>sid i d. py_max (\<lambda>(sid, span_index, duration). duration) (valid_spans K (zipped row)) = Some (sid, i, d) \<Longrightarrow>
      collected_inv K (store_names (M\<lparr>span_duration_mapping := dict_set (span_duration_mapping M) sid d\<rparr>) sid (span_list row) i)"
  proof -
    fix sid i d
    assume "py_max (\<lambda>(sid, span_index, duration). duration) (valid_spans K (zipped row)) = Some (sid, i, d)"
    from valid_spans_mem[OF py_max_mem[OF this]] obtain raw where "0 < raw" "d = min raw (MAX_DURATION K)" by blast
    then show "collected_inv K (store_names (M\<lparr>span_duration_mapping := dict_set (span_duration_mapping M) sid d\<rparr>) sid (span_list row) i)"
      using collected_inv_set_names[OF inv] by simp
  qed
  show ?thesis
    unfolding collect_log_def
    using inv a b collected_inv_collect_all[OF inv]
    by (auto split: option.splits)
qed

lemma collected_inv_foldl:
  "collected_inv K M \<Longrightarrow> collected_inv K (foldl (collect_log K self) M logs)"
  by (induction logs arbitrary: M) (auto intro: collected_inv_collect_log)

lemma collected_inv_collect_logs: "collected_inv K (collect_logs K self logs)"
  unfolding collect_logs_def
  by (rule collected_inv_foldl) (simp add: collected_inv_def)


section \<open>The error root-cause selector computes the root-cause spans\<close>
lemma example_chain_result: "find_root_cause_spans example_chain = Inr [''C'']"
  by code_simp

lemma leaf_in_spec:
  assumes "s \<in> set spans" "truthy (traceId s)" "spanId s = Some sid" "is_error s"
    "\<forall>c\<in>set spans. traceId c = traceId s \<longrightarrow> parentSpanId c \<noteq> Some sid"
  shows "sid \<in> spec_root_cause_spans spans"
  unfolding spec_root_cause_spans_def using assms by blast

text \<open>
  C1. On well-formed input \<open>find_root_cause_spans\<close> returns, over all traces, exactly the
  span ids of the spans with status above 1 none of whose registered children in the same
  trace has status above 1; an errored span that no span of its trace names as parent is
  always returned. For the chain A (status 0), B (status 2, child of A), C (status 2, child
  of B) the result is exactly C.
\<close>

theorem C1_root_cause_spans:
  "(well_formed spans \<longrightarrow>
      (\<exists>r. find_root_cause_spans spans = Inr r \<and> set r = spec_root_cause_spans spans \<and>
         (\<forall>s\<in>set spans. \<forall>sid. truthy (traceId s) \<and> spanId s = Some sid \<and> is_error s \<and>
             (\<forall>c\<in>set spans. traceId c = traceId s \<longrightarrow> parentSpanId c \<noteq> Some sid)
             \<longrightarrow> sid \<in> set r)))
   \<and> find_root_cause_spans example_chain = Inr [''C'']"
proof (intro conjI impI)
  assume wf: "well_formed spans"
  from find_root_cause_spans_correct[OF wf] obtain r where
    r: "find_root_cause_spans spans = Inr r" "set r = spec_root_cause_spans spans" by blast
  have "\<forall>s\<in>set spans. \<forall>sid. truthy (traceId s) \<and> spanId s = Some sid \<and> is_error s \<and>
             (\<forall>c\<in>set spans. traceId c = traceId s \<longrightarrow> parentSpanId c \<noteq> Some sid)
             \<longrightarrow> sid \<in> set r"
    unfolding r(2) using leaf_in_spec by blast
  with r show "\<exists>r. find_root_cause_spans spans = Inr r \<and> set r = spec_root_cause_spans spans \<and>
         (\<forall>s\<in>set spans. \<forall>sid. truthy (traceId s) \<and> spanId s = Some sid \<and> is_error s \<and>
             (\<forall>c\<in>set spans. traceId c = traceId s \<longrightarrow> parentSpanId c \<noteq> Some sid)
             \<longrightarrow> sid \<in> set r)" by blast
next
  show "find_root_cause_spans example_chain = Inr [''C'']" by (rule example_chain_result)
qed

theorem C1_root_cause_spans_witness:
  "well_formed example_two_traces \<and>
   find_root_cause_spans example_two_traces = Inr [''B'', ''X''] \<and>
   spec_root_cause_spans example_two_traces = {''B'', ''X''}"
proof -
  have wf: "well_formed example_two_traces" by code_simp
  have res: "find_root_cause_spans example_two_traces = Inr [''B'', ''X'']" by code_simp
  from C1_root_cause_spans[of example_two_traces] wf res
  have "set [''B'', ''X''] = spec_root_cause_spans example_two_traces" by auto
  with wf res show ?thesis by auto
qed

subsection \<open>Status codes that are not integers\<close>
lemma register_span_unparsable:
  "unparsable_status s \<Longrightarrow> \<exists>e. register_span m s = Inl e"
  by (auto simp: unparsable_status_def register_span_def split: option.splits)

lemma register_span_error_kind:
  "register_span m s = Inl e \<Longrightarrow> has_keys s \<Longrightarrow> e = ValueError"
  by (auto simp: has_keys_def register_span_def Let_def split: option.splits if_splits)

lemma build_maps_fails:
  "s \<in> set ss \<Longrightarrow> unparsable_status s \<Longrightarrow> \<exists>e. build_maps m ss = Inl e"
proof (induction ss arbitrary: m)
  case Nil
  then show ?case by simp
next
  case (Cons x ss)
  show ?case
  proof (cases "register_span m x")
    case (Inl e)
    then show ?thesis by simp
  next
    case (Inr m')
    with register_span_unparsable[of x m] Cons.prems have "s \<in> set ss" by auto
    from Cons.IH[OF this Cons.prems(2)] Inr show ?thesis by simp
  qed
qed

lemma build_maps_error_kind:
  "build_maps m ss = Inl e \<Longrightarrow> \<forall>s\<in>set ss. has_keys s \<Longrightarrow> e = ValueError"
  by (induction ss arbitrary: m) (auto split: sum.splits dest: register_span_error_kind)

lemma process_groups_fails:
  "(t, l) \<in> set g \<Longrightarrow> process_one_trace_log l = Inl e0 \<Longrightarrow> \<exists>e. process_groups g = Inl e"
  by (induction g) (auto split: sum.splits)

lemma process_groups_error_kind:
  "process_groups g = Inl e \<Longrightarrow> \<forall>(t, l)\<in>set g. \<forall>s\<in>set l. has_keys s \<Longrightarrow> e = ValueError"
proof (induction g)
  case Nil
  then show ?case by simp
next
  case (Cons a g)
  obtain t l where a: "a = (t, l)" by (cases a)
  show ?case
  proof (cases "process_one_trace_log l")
    case (Inl e1)
    with Cons.prems a have "e = e1" by simp
    moreover from Inl have "build_maps empty_maps l = Inl e1"
      by (auto simp: process_one_trace_log_def split: sum.splits)
    moreover from Cons.prems(2) a have "\<forall>s\<in>set l. has_keys s" by auto
    ultimately show ?thesis using build_maps_error_kind by blast
  next
    case (Inr r)
    with Cons.prems a have "process_groups g = Inl e" by (auto split: sum.splits)
    moreover from Cons.prems(2) have "\<forall>(t, l)\<in>set g. \<forall>s\<in>set l. has_keys s" by auto
    ultimately show ?thesis by (rule Cons.IH)
  qed
qed

lemma unparsable_raises:
  assumes s: "s \<in> set spans" "truthy (traceId s)" "unparsable_status s"
  shows "\<exists>e. find_root_cause_spans spans = Inl e"
proof -
  from s(2) obtain t where t: "traceId s = Some t" "t \<noteq> []"
    by (auto simp: truthy_def split: option.splits)
  let ?g = "group_traces [] spans"
  let ?l = "filter (\<lambda>s. traceId s = Some t) spans"
  have sg: "set ?g = {(t, filter (\<lambda>s. traceId s = Some t) spans) | t. t \<noteq> [] \<and> (\<exists>s\<in>set spans. traceId s = Some t)}"
    using group_traces_inv by (rule set_groups)
  have mem: "(t, ?l) \<in> set ?g" unfolding sg using s(1) t by blast
  have "s \<in> set ?l" using s(1) t by simp
  from build_maps_fails[OF this s(3)] obtain e0 where "build_maps empty_maps ?l = Inl e0" by blast
  then have "process_one_trace_log ?l = Inl e0" by (simp add: process_one_trace_log_def)
  from process_groups_fails[OF mem this] show ?thesis by (simp add: find_root_cause_spans_def)
qed

lemma raised_error_kind:
  assumes e: "find_root_cause_spans spans = Inl e"
    and k: "\<forall>s\<in>set spans. truthy (traceId s) \<longrightarrow> has_keys s"
  shows "e = ValueError"
proof -
  let ?g = "group_traces [] spans"
  have sg: "set ?g = {(t, filter (\<lambda>s. traceId s = Some t) spans) | t. t \<noteq> [] \<and> (\<exists>s\<in>set spans. traceId s = Some t)}"
    using group_traces_inv by (rule set_groups)
  have "\<forall>(t, l)\<in>set ?g. \<forall>s\<in>set l. has_keys s"
    unfolding sg using k by (auto simp: truthy_def)
  with e show ?thesis unfolding find_root_cause_spans_def by (rule process_groups_error_kind)
qed

text \<open>
  C3, as stated, fails: a span whose status code does not parse is not treated as a
  non-error span. The conversion \<open>int(span["statusCode"])\<close> raises, and nothing in
  \<open>process_one_trace_log\<close> or \<open>find_root_cause_spans\<close> catches it: after an errored
  span A, the span B with status code \<open>abc\<close> makes the call raise \<open>ValueError\<close> instead of
  returning A.
\<close>

theorem C3_counterexample: "find_root_cause_spans example_unparsable = Inl ValueError"
  by code_simp

text \<open>
  C3, amended. Whenever a span with a non-empty trace id carries a status code that does
  not parse as an integer, \<open>find_root_cause_spans\<close> raises and returns no span list; the
  exception is \<open>ValueError\<close> when no span of a trace lacks one of the three keys read.
  Empty input yields the empty list.
\<close>

theorem C3_unparsable_status_raises:
  "((\<exists>s\<in>set spans. truthy (traceId s) \<and> unparsable_status s) \<longrightarrow>
       (\<exists>e. find_root_cause_spans spans = Inl e))
   \<and> ((\<exists>s\<in>set spans. truthy (traceId s) \<and> unparsable_status s) \<and>
        (\<forall>s\<in>set spans. truthy (traceId s) \<longrightarrow> has_keys s) \<longrightarrow>
       find_root_cause_spans spans = Inl ValueError)
   \<and> find_root_cause_spans [] = Inr []"
proof (intro conjI impI)
  assume "\<exists>s\<in>set spans. truthy (traceId s) \<and> unparsable_status s"
  then show "\<exists>e. find_root_cause_spans spans = Inl e" using unparsable_raises by blast
next
  assume a: "(\<exists>s\<in>set spans. truthy (traceId s) \<and> unparsable_status s) \<and>
        (\<forall>s\<in>set spans. truthy (traceId s) \<longrightarrow> has_keys s)"
  then obtain e where e: "find_root_cause_spans spans = Inl e" using unparsable_raises by blast
  with a raised_error_kind have "e = ValueError" by blast
  with e show "find_root_cause_spans spans = Inl ValueError" by simp
next
  show "find_root_cause_spans [] = Inr []" by (simp add: find_root_cause_spans_def)
qed

theorem C3_unparsable_status_raises_witness:
  "truthy (traceId (mk_span ''t1'' ''B'' ''A'' ''abc'')) \<and>
   unparsable_status (mk_span ''t1'' ''B'' ''A'' ''abc'') \<and>
   has_keys (mk_span ''t1'' ''B'' ''A'' ''abc'') \<and>
   find_root_cause_spans [mk_span ''t1'' ''B'' ''A'' ''abc''] = Inl ValueError"
proof -
  have h1: "truthy (traceId (mk_span ''t1'' ''B'' ''A'' ''abc''))"
    by code_simp
  have h2: "unparsable_status (mk_span ''t1'' ''B'' ''A'' ''abc'')"
    by code_simp
  have h3: "has_keys (mk_span ''t1'' ''B'' ''A'' ''abc'')"
    by code_simp
  from C3_unparsable_status_raises[of "[mk_span ''t1'' ''B'' ''A'' ''abc'']"] h1 h2 h3
  have "find_root_cause_spans [mk_span ''t1'' ''B'' ''A'' ''abc''] = Inl ValueError" by simp
  with h1 h2 h3 show ?thesis by blast
qed

section \<open>Proofs: ranking and the percentile cut\<close>

lemma accumulate_prefix:
  assumes "cum + sum_list (map snd ys) \<ge> target" "ys \<noteq> []"
  shows "\<exists>n. 0 < n \<and> n \<le> length ys \<and> accumulate target cum ys = map fst (take n ys) \<and>
             cum + sum_list (map snd (take n ys)) \<ge> target \<and>
             (\<forall>m. 0 < m \<and> m < n \<longrightarrow> cum + sum_list (map snd (take m ys)) < target)"
  using assms
proof (induction ys arbitrary: cum)
  case Nil
  then show ?case by simp
next
  case (Cons y ys)
  obtain sid d where y: "y = (sid, d)" by (cases y)
  show ?case
  proof (cases "cum + d \<ge> target")
    case True
    then have "0 < (1::nat) \<and> 1 \<le> length (y # ys) \<and> accumulate target cum (y # ys) = map fst (take 1 (y # ys)) \<and>
             cum + sum_list (map snd (take 1 (y # ys))) \<ge> target \<and>
             (\<forall>m. 0 < m \<and> m < 1 \<longrightarrow> cum + sum_list (map snd (take m (y # ys))) < target)"
      using y by simp
    then show ?thesis by blast
  next
    case False
    with Cons.prems y have "ys \<noteq> []" by auto
    moreover from Cons.prems y have "(cum + d) + sum_list (map snd ys) \<ge> target" by simp
    ultimately obtain n where n: "0 < n" "n \<le> length ys" "accumulate target (cum + d) ys = map fst (take n ys)"
      "(cum + d) + sum_list (map snd (take n ys)) \<ge> target"
      "\<forall>m. 0 < m \<and> m < n \<longrightarrow> (cum + d) + sum_list (map snd (take m ys)) < target"
      using Cons.IH[of "cum + d"] by blast
    have min: "\<forall>m. 0 < m \<and> m < Suc n \<longrightarrow> cum + sum_list (map snd (take m (y # ys))) < target"
    proof (intro allI impI)
      fix m assume m: "0 < m \<and> m < Suc n"
      then obtain m' where m': "m = Suc m'" by (cases m) auto
      show "cum + sum_list (map snd (take m (y # ys))) < target"
      proof (cases "m' = 0")
        case True
        with m' y False show ?thesis by simp
      next
        case False
        with m m' n(5) have "(cum + d) + sum_list (map snd (take m' ys)) < target" by simp
        with m' y show ?thesis by simp
      qed
    qed
    have "0 < Suc n \<and> Suc n \<le> length (y # ys) \<and> accumulate target cum (y # ys) = map fst (take (Suc n) (y # ys)) \<and>
             cum + sum_list (map snd (take (Suc n) (y # ys))) \<ge> target"
      using n y False by simp
    with min show ?thesis by blast
  qed
qed

lemma sum_list_sort_desc: "sum_list (map snd (sort_desc xs)) = sum_list (map snd xs)"
proof -
  have "mset (sort_desc xs) = mset xs" by (simp add: sort_desc_def)
  then have "mset (map snd (sort_desc xs)) = mset (map snd xs)" by simp
  then show ?thesis by (metis sum_mset_sum_list)
qed

lemma sort_desc_descending: "sorted_wrt (\<lambda>a b. snd a \<ge> snd b) (sort_desc xs)"
proof -
  have "sorted (map (\<lambda>x. - snd x) (sort_desc xs))" by (simp add: sort_desc_def)
  then show ?thesis by (simp add: sorted_map)
qed

lemma top_95_percent_zero: "sum_list (map snd xs) = 0 \<Longrightarrow> top_95_percent K xs = []"
  by (simp add: top_95_percent_def Let_def sum_list_sort_desc)

lemma top_95_percent_cut:
  assumes nonneg: "\<forall>x\<in>set xs. 0 \<le> snd x"
    and p: "0 < PERCENT_95 K" "PERCENT_95 K \<le> 1"
    and total: "sum_list (map snd xs) \<noteq> 0"
  shows "\<exists>n. n \<le> length xs \<and> top_95_percent K xs = map fst (take n (sort_desc xs)) \<and>
           sum_list (map snd (take n (sort_desc xs))) \<ge> sum_list (map snd xs) * PERCENT_95 K \<and>
           (\<forall>m<n. sum_list (map snd (take m (sort_desc xs))) < sum_list (map snd xs) * PERCENT_95 K)"
proof -
  let ?t = "sum_list (map snd xs)"
  let ?s = "sort_desc xs"
  have "0 \<le> ?t" using nonneg by (intro sum_list_nonneg) auto
  with total have pos: "0 < ?t" by simp
  have tgt_pos: "0 < ?t * PERCENT_95 K" using pos p(1) by simp
  have tgt_le: "?t * PERCENT_95 K \<le> ?t" using pos p(2) by (simp add: mult_left_le)
  have ne: "?s \<noteq> []"
  proof
    assume "?s = []"
    then have "length xs = 0" by (metis length_sort list.size(3) sort_desc_def)
    with pos show False by simp
  qed
  have "0 + sum_list (map snd ?s) \<ge> ?t * PERCENT_95 K" using tgt_le by (simp add: sum_list_sort_desc)
  from accumulate_prefix[OF this ne] obtain n where
    n: "0 < n" "n \<le> length ?s" "accumulate (?t * PERCENT_95 K) 0 ?s = map fst (take n ?s)"
       "0 + sum_list (map snd (take n ?s)) \<ge> ?t * PERCENT_95 K"
       "\<forall>m. 0 < m \<and> m < n \<longrightarrow> 0 + sum_list (map snd (take m ?s)) < ?t * PERCENT_95 K"
    by blast
  have res: "top_95_percent K xs = map fst (take n ?s)"
    using total n(3) by (simp add: top_95_percent_def Let_def sum_list_sort_desc)
  have min: "\<forall>m<n. sum_list (map snd (take m ?s)) < ?t * PERCENT_95 K"
  proof (intro allI impI)
    fix m assume "m < n"
    show "sum_list (map snd (take m ?s)) < ?t * PERCENT_95 K"
    proof (cases "m = 0")
      case True
      then show ?thesis using tgt_pos by simp
    next
      case False
      with \<open>m < n\<close> n(5) show ?thesis by simp
    qed
  qed
  have "n \<le> length xs" using n(2) by (simp add: sort_desc_def)
  with res n(4) min show ?thesis by auto
qed


section \<open>The returned list has no duplicates\<close>

lemma fst_adjust_one: "fst (adjust_one K self sm x) = fst x"
  by (auto simp: adjust_one_def split: option.splits prod.splits)

lemma map_fst_adjust_one: "map fst (map (adjust_one K self sm) dm) = map fst dm"
  by (simp add: fst_adjust_one)

lemma map_fst_adjusted:
  "map fst (snd (adjusted_span_durations K self client M)) = map fst (span_duration_mapping M)"
  by (cases "choose_strategy self M")
     (simp_all add: adjusted_span_durations_def adjust_durations_directly_def
        adjust_durations_with_span_average_def Let_def fst_adjust_one split_def comp_def)

lemma accumulate_is_prefix: "\<exists>n. accumulate t c ys = map fst (take n ys)"
proof (induction ys arbitrary: c)
  case Nil
  show ?case by simp
next
  case (Cons y ys)
  obtain sid d where y: "y = (sid, d)" by (cases y)
  show ?case
  proof (cases "c + d \<ge> t")
    case True
    then have "accumulate t c (y # ys) = map fst (take 1 (y # ys))" using y by simp
    then show ?thesis by blast
  next
    case False
    from Cons.IH[of "c + d"] obtain n where "accumulate t (c + d) ys = map fst (take n ys)" by blast
    with False y have "accumulate t c (y # ys) = map fst (take (Suc n) (y # ys))" by simp
    then show ?thesis by blast
  qed
qed

lemma distinct_sort_desc_keys: "distinct (map fst xs) \<Longrightarrow> distinct (map fst (sort_desc xs))"
proof -
  assume d: "distinct (map fst xs)"
  have "mset (map fst (sort_desc xs)) = mset (map fst xs)" by (simp add: sort_desc_def)
  with d show ?thesis by (metis mset_eq_imp_distinct_iff)
qed

lemma distinct_top_95_percent: "distinct (map fst xs) \<Longrightarrow> distinct (top_95_percent K xs)"
proof -
  assume d: "distinct (map fst xs)"
  obtain n where n: "accumulate (sum_list (map snd (sort_desc xs)) * PERCENT_95 K) 0 (sort_desc xs)
      = map fst (take n (sort_desc xs))"
    using accumulate_is_prefix by blast
  have "distinct (map fst (take n (sort_desc xs)))"
    using distinct_sort_desc_keys[OF d] by (simp add: take_map[symmetric])
  with n show ?thesis by (simp add: top_95_percent_def Let_def)
qed

lemma distinct_process:
  "distinct (snd (process_exclusive_duration_data K self client logs))"
proof -
  let ?M = "collect_logs K self logs"
  have "distinct (map fst (span_duration_mapping ?M))"
    using collected_inv_collect_logs[of K self logs] unfolding collected_inv_def by blast
  then have "distinct (map fst (snd (adjusted_span_durations K self client ?M)))"
    by (simp only: map_fst_adjusted)
  then have "distinct (top_95_percent K (snd (adjusted_span_durations K self client ?M)))"
    by (rule distinct_top_95_percent)
  then show ?thesis
    by (simp add: process_exclusive_duration_data_def Let_def split_def)
qed

text \<open>
  C10. For every input the list returned by \<open>find_top_95_percent_spans\<close> holds each span id
  at most once: durations are keyed by span id while they are collected, a later row
  overwriting an earlier one, and ranking and cutting keep the keys apart.
\<close>

theorem C10_no_duplicate_span_ids:
  "distinct (find_top_95_percent_spans K self client response)"
  by (cases response) (simp_all add: find_top_95_percent_spans_def distinct_process)

theorem C10_no_duplicate_span_ids_witness:
  "find_top_95_percent_spans example_constants plain_finder no_lookup (Inr example_repeated) = [''s1'', ''s2'']
   \<and> distinct [''s1'', ''s2'']"
proof -
  have "find_top_95_percent_spans example_constants plain_finder no_lookup (Inr example_repeated) = [''s1'', ''s2'']"
    by code_simp
  with C10_no_duplicate_span_ids[of example_constants plain_finder no_lookup "Inr example_repeated"]
  show ?thesis by simp
qed


section \<open>Choosing between the direct and the resample mode\<close>

lemma concat_batches: "concat (batches xs) = xs"
proof (induction xs rule: batches.induct)
  case (1 xs)
  show ?case
  proof (cases "xs = []")
    case True
    then show ?thesis by (simp add: batches.simps)
  next
    case False
    with 1 have "concat (batches (drop 500 xs)) = drop 500 xs" by simp
    with False show ?thesis by (subst batches.simps) simp
  qed
qed

lemma batches_bounded: "b \<in> set (batches xs) \<Longrightarrow> b \<noteq> [] \<and> length b \<le> 500"
proof (induction xs rule: batches.induct)
  case (1 xs)
  show ?case
  proof (cases "xs = []")
    case True
    with "1.prems" show ?thesis by (simp add: batches.simps)
  next
    case False
    from "1.prems" False have "b = take 500 xs \<or> b \<in> set (batches (drop 500 xs))"
      by (subst (asm) batches.simps) simp
    then show ?thesis using "1.IH"[OF False] False by auto
  qed
qed

lemma batches_nonempty: "xs \<noteq> [] \<Longrightarrow> batches xs \<noteq> []"
  by (subst batches.simps) simp

lemma length_sorted_desc: "length (sorted_desc dm) = length dm"
  by (simp add: sorted_desc_def)

lemma length_sampled_span_ids: "length (sampled_span_ids cap dm) = min cap (length dm)"
  by (simp add: sampled_span_ids_def length_sorted_desc)

lemma coverage_iff:
  assumes "dm \<noteq> []"
  shows "real (length sm) / real (length dm) > 0.5 \<longleftrightarrow> 2 * length sm > length dm"
proof -
  have "0 < real (length dm)" using assms by simp
  then have "real (length sm) / real (length dm) > 1 / 2 \<longleftrightarrow> real (length dm) < 2 * real (length sm)"
    by (simp add: field_simps)
  also have "\<dots> \<longleftrightarrow> length dm < 2 * length sm"
    by (metis of_nat_less_iff of_nat_mult of_nat_numeral)
  finally show ?thesis by simp
qed

text \<open>
  C8, as stated, fails at a coverage of exactly 50%: the code asks for strictly more than
  half (\<open>coverage_rate > 0.5\<close>, and the comment above it says so). With names attached to
  one of two spans the resample mode is chosen and the lookup for both spans is issued.
\<close>

theorem C8_counterexample:
  "real (length (span_service_mapping (collect_logs example_constants normalizing_finder example_half_covered)))
     / real (length (span_duration_mapping (collect_logs example_constants normalizing_finder example_half_covered)))
     = 1 / 2
   \<and> choose_strategy normalizing_finder (collect_logs example_constants normalizing_finder example_half_covered)
     = Resample
   \<and> fst (process_exclusive_duration_data example_constants normalizing_finder no_lookup example_half_covered)
     = [[''s1'', ''s2'']]"
proof -
  have M: "collect_logs example_constants normalizing_finder example_half_covered =
     \<lparr>span_duration_mapping = [(''s1'', 500), (''s2'', 400)],
      span_service_mapping = [(''s1'', ''svc'', ''op'')]\<rparr>"
    by code_simp
  have 1: "choose_strategy normalizing_finder \<lparr>span_duration_mapping = [(''s1'', 500), (''s2'', 400)],
      span_service_mapping = [(''s1'', ''svc'', ''op'')]\<rparr> = Resample"
    by (simp add: choose_strategy_def normalizing_finder_def)
  have 2: "fst (process_exclusive_duration_data example_constants normalizing_finder no_lookup example_half_covered)
     = [[''s1'', ''s2'']]"
    by code_simp
  show ?thesis unfolding M using 1 2 by simp
qed

text \<open>
  C8, amended. When normalization is active and spans were collected: if names are
  attached to strictly more than 50% of the spans, direct mode is used and no lookup is
  issued; if they are attached to at most 50%, resample mode issues the lookup, for at most
  \<open>HIGH_RT_TRACES\<close> span ids in batches of at most 500; and when no names are attached
  at all, resample mode is chosen.
\<close>

theorem C8_strategy_selection:
  "minus_average self \<and> span_average_durations self \<noteq> [] \<and> span_duration_mapping M \<noteq> [] \<longrightarrow>
     (2 * length (span_service_mapping M) > length (span_duration_mapping M) \<longrightarrow>
        choose_strategy self M = Direct \<and>
        adjusted_span_durations K self client M =
          ([], adjust_durations_directly K self (span_duration_mapping M) (span_service_mapping M))) \<and>
     (2 * length (span_service_mapping M) \<le> length (span_duration_mapping M) \<longrightarrow>
        choose_strategy self M = Resample \<and>
        adjusted_span_durations K self client M =
          adjust_durations_with_span_average K self client (span_duration_mapping M) \<and>
        concat (fst (adjusted_span_durations K self client M)) =
          sampled_span_ids (HIGH_RT_TRACES K) (span_duration_mapping M) \<and>
        length (concat (fst (adjusted_span_durations K self client M))) \<le> HIGH_RT_TRACES K \<and>
        (\<forall>b\<in>set (fst (adjusted_span_durations K self client M)). b \<noteq> [] \<and> length b \<le> 500)) \<and>
     (span_service_mapping M = [] \<longrightarrow> choose_strategy self M = Resample)"
proof (intro impI)
  assume a: "minus_average self \<and> span_average_durations self \<noteq> [] \<and> span_duration_mapping M \<noteq> []"
  then have cov: "real (length (span_service_mapping M)) / real (length (span_duration_mapping M)) > 0.5
      \<longleftrightarrow> 2 * length (span_service_mapping M) > length (span_duration_mapping M)"
    using coverage_iff by blast
  have direct: "2 * length (span_service_mapping M) > length (span_duration_mapping M) \<Longrightarrow>
      choose_strategy self M = Direct"
    using a cov by (auto simp: choose_strategy_def)
  have resample: "2 * length (span_service_mapping M) \<le> length (span_duration_mapping M) \<Longrightarrow>
      choose_strategy self M = Resample"
    using a cov by (auto simp: choose_strategy_def)
  have q: "fst (adjust_durations_with_span_average K self client (span_duration_mapping M)) =
      batches (sampled_span_ids (HIGH_RT_TRACES K) (span_duration_mapping M))"
    by (simp add: adjust_durations_with_span_average_def Let_def)
  show "(2 * length (span_service_mapping M) > length (span_duration_mapping M) \<longrightarrow>
        choose_strategy self M = Direct \<and>
        adjusted_span_durations K self client M =
          ([], adjust_durations_directly K self (span_duration_mapping M) (span_service_mapping M))) \<and>
     (2 * length (span_service_mapping M) \<le> length (span_duration_mapping M) \<longrightarrow>
        choose_strategy self M = Resample \<and>
        adjusted_span_durations K self client M =
          adjust_durations_with_span_average K self client (span_duration_mapping M) \<and>
        concat (fst (adjusted_span_durations K self client M)) =
          sampled_span_ids (HIGH_RT_TRACES K) (span_duration_mapping M) \<and>
        length (concat (fst (adjusted_span_durations K self client M))) \<le> HIGH_RT_TRACES K \<and>
        (\<forall>b\<in>set (fst (adjusted_span_durations K self client M)). b \<noteq> [] \<and> length b \<le> 500)) \<and>
     (span_service_mapping M = [] \<longrightarrow> choose_strategy self M = Resample)"
  proof (intro conjI impI)
    assume "2 * length (span_service_mapping M) > length (span_duration_mapping M)"
    from direct[OF this] show "choose_strategy self M = Direct" .
    then show "adjusted_span_durations K self client M =
          ([], adjust_durations_directly K self (span_duration_mapping M) (span_service_mapping M))"
      by (simp add: adjusted_span_durations_def)
  next
    assume "2 * length (span_service_mapping M) \<le> length (span_duration_mapping M)"
    from resample[OF this] show r: "choose_strategy self M = Resample" .
    then show e: "adjusted_span_durations K self client M =
          adjust_durations_with_span_average K self client (span_duration_mapping M)"
      by (simp add: adjusted_span_durations_def)
    show "concat (fst (adjusted_span_durations K self client M)) =
          sampled_span_ids (HIGH_RT_TRACES K) (span_duration_mapping M)"
      unfolding e q by (rule concat_batches)
    show "length (concat (fst (adjusted_span_durations K self client M))) \<le> HIGH_RT_TRACES K"
      unfolding e q concat_batches by (simp add: length_sampled_span_ids)
    show "\<forall>b\<in>set (fst (adjusted_span_durations K self client M)). b \<noteq> [] \<and> length b \<le> 500"
      unfolding e q using batches_bounded by blast
  next
    assume "span_service_mapping M = []"
    then show "choose_strategy self M = Resample" using a by (simp add: choose_strategy_def)
  qed
qed

theorem C8_strategy_selection_witness:
  "minus_average normalizing_finder \<and> span_average_durations normalizing_finder \<noteq> [] \<and>
   span_duration_mapping (collect_logs example_constants normalizing_finder example_fully_covered) \<noteq> [] \<and>
   2 * length (span_service_mapping (collect_logs example_constants normalizing_finder example_fully_covered))
     > length (span_duration_mapping (collect_logs example_constants normalizing_finder example_fully_covered)) \<and>
   choose_strategy normalizing_finder (collect_logs example_constants normalizing_finder example_fully_covered)
     = Direct \<and>
   fst (adjusted_span_durations example_constants normalizing_finder no_lookup
          (collect_logs example_constants normalizing_finder example_fully_covered)) = []"
proof -
  let ?M = "collect_logs example_constants normalizing_finder example_fully_covered"
  have M: "?M = \<lparr>span_duration_mapping = [(''s1'', 500), (''s2'', 400)],
      span_service_mapping = [(''s1'', ''svc'', ''op''), (''s2'', ''svc'', ''other'')]\<rparr>"
    by code_simp
  have h1: "minus_average normalizing_finder \<and> span_average_durations normalizing_finder \<noteq> [] \<and>
      span_duration_mapping ?M \<noteq> []"
    unfolding M by (simp add: normalizing_finder_def)
  have h2: "2 * length (span_service_mapping ?M) > length (span_duration_mapping ?M)"
    unfolding M by simp
  from C8_strategy_selection[of normalizing_finder ?M example_constants no_lookup] h1 h2
  have "choose_strategy normalizing_finder ?M = Direct \<and>
        fst (adjusted_span_durations example_constants normalizing_finder no_lookup ?M) = []"
    by simp
  with h1 h2 show ?thesis by blast
qed


section \<open>Normalization without a baseline map\<close>

lemma collect_log_no_baseline:
  assumes "span_average_durations self = []"
  shows "collect_log K (self\<lparr>minus_average := b\<rparr>) M row = collect_log K self M row"
  using assms by (simp add: collect_log_def)

lemma collect_logs_no_baseline:
  assumes "span_average_durations self = []"
  shows "collect_logs K (self\<lparr>minus_average := b\<rparr>) logs = collect_logs K self logs"
proof -
  have "collect_log K (self\<lparr>minus_average := b\<rparr>) = collect_log K self"
    using collect_log_no_baseline[OF assms] by (intro ext)
  then show ?thesis by (simp add: collect_logs_def)
qed

lemma choose_strategy_no_baseline:
  "span_average_durations self = [] \<Longrightarrow> choose_strategy self M = Unadjusted"
  by (simp add: choose_strategy_def)

lemma adjusted_no_baseline:
  assumes "span_average_durations self = []"
  shows "adjusted_span_durations K self client M =
     ([], map (\<lambda>(sid, duration). (sid, min duration (MAX_DURATION K))) (span_duration_mapping M))"
  using choose_strategy_no_baseline[OF assms] by (simp add: adjusted_span_durations_def)

lemma process_no_baseline:
  assumes "span_average_durations self = []"
  shows "process_exclusive_duration_data K (self\<lparr>minus_average := b\<rparr>) client logs =
         process_exclusive_duration_data K self client logs"
    and "fst (process_exclusive_duration_data K self client logs) = []"
proof -
  have s: "span_average_durations (self\<lparr>minus_average := b\<rparr>) = []" using assms by simp
  show "process_exclusive_duration_data K (self\<lparr>minus_average := b\<rparr>) client logs =
         process_exclusive_duration_data K self client logs"
    unfolding process_exclusive_duration_data_def
    by (simp only: collect_logs_no_baseline[OF assms] adjusted_no_baseline[OF assms] adjusted_no_baseline[OF s])
  show "fst (process_exclusive_duration_data K self client logs) = []"
    unfolding process_exclusive_duration_data_def
    by (simp add: adjusted_no_baseline[OF assms] Let_def)
qed

text \<open>
  C4, as stated, fails: no configuration error exists in the selector. A finder built with
  normalization requested and no normal period has an empty baseline map; the tests
  \<open>self.minus_average and self.span_average_durations\<close> then take the branch without
  normalization, and the call returns a ranked list.
\<close>

theorem C4_counterexample:
  "minus_average finder_without_baseline \<and>
   span_average_durations finder_without_baseline = [] \<and>
   find_top_95_percent_spans example_constants finder_without_baseline no_lookup (Inr example_repeated)
     = [''s1'', ''s2'']"
  by code_simp

text \<open>
  C4, amended. With an empty baseline map the selector does not fail: whatever
  \<open>minus_average\<close> says, it returns the list it returns with normalization off and issues
  no lookup. The constructor leaves the map empty when normalization is requested without
  both ends of the normal period, or when the query over the normal period raises. A call
  whose query raises returns the empty list.
\<close>

theorem C4_silent_fallback:
  "(span_average_durations self = [] \<longrightarrow>
      process_exclusive_duration_data K self client logs =
        process_exclusive_duration_data K (self\<lparr>minus_average := False\<rparr>) client logs \<and>
      fst (process_exclusive_duration_data K self client logs) = [] \<and>
      find_top_95_percent_spans K self client response =
        find_top_95_percent_spans K (self\<lparr>minus_average := False\<rparr>) client response)
   \<and> (\<not> (truthy normal_start_time \<and> truthy normal_end_time) \<longrightarrow>
        span_average_durations
          (init_finder K ref_client ref_response normal_start_time normal_end_time True only_top1) = [])
   \<and> span_average_durations
        (init_finder K ref_client (Inl e) normal_start_time normal_end_time True only_top1) = []
   \<and> find_top_95_percent_spans K self client (Inl e) = []"
proof (intro conjI impI)
  show "find_top_95_percent_spans K self client (Inl e) = []"
    by (simp add: find_top_95_percent_spans_def)
next
  assume a: "span_average_durations self = []"
  show "process_exclusive_duration_data K self client logs =
        process_exclusive_duration_data K (self\<lparr>minus_average := False\<rparr>) client logs"
    using process_no_baseline(1)[OF a] by simp
  show "fst (process_exclusive_duration_data K self client logs) = []"
    by (rule process_no_baseline(2)[OF a])
  show "find_top_95_percent_spans K self client response =
        find_top_95_percent_spans K (self\<lparr>minus_average := False\<rparr>) client response"
    by (cases response) (simp_all add: find_top_95_percent_spans_def process_no_baseline(1)[OF a])
next
  assume "\<not> (truthy normal_start_time \<and> truthy normal_end_time)"
  then show "span_average_durations
          (init_finder K ref_client ref_response normal_start_time normal_end_time True only_top1) = []"
    by (auto simp: init_finder_def)
next
  show "span_average_durations
        (init_finder K ref_client (Inl e) normal_start_time normal_end_time True only_top1) = []"
    by (simp add: init_finder_def calculate_span_averages_def)
qed

theorem C4_silent_fallback_witness:
  "span_average_durations finder_without_baseline = [] \<and>
   find_top_95_percent_spans example_constants finder_without_baseline no_lookup (Inr example_repeated)
     = find_top_95_percent_spans example_constants (finder_without_baseline\<lparr>minus_average := False\<rparr>)
         no_lookup (Inr example_repeated) \<and>
   find_top_95_percent_spans example_constants (finder_without_baseline\<lparr>minus_average := False\<rparr>)
         no_lookup (Inr example_repeated) = [''s1'', ''s2'']"
proof -
  have h: "span_average_durations finder_without_baseline = []" by code_simp
  have r: "find_top_95_percent_spans example_constants (finder_without_baseline\<lparr>minus_average := False\<rparr>)
         no_lookup (Inr example_repeated) = [''s1'', ''s2'']" by code_simp
  from C4_silent_fallback[of finder_without_baseline example_constants no_lookup _ "Inr example_repeated"] h r
  show ?thesis by simp
qed


section \<open>Baseline subtraction\<close>

lemma adjust_one_spec:
  assumes "0 \<le> d" "d \<le> MAX_DURATION K"
  shows "adjust_one K self sm (sid, d) = (sid, spec_adjusted K self (map_of sm sid) d)"
  using assms
  by (auto simp: adjust_one_def spec_adjusted_def dict_get_def split: option.splits)

lemma collected_in_range:
  assumes "collected_inv K M" "0 \<le> MAX_DURATION K" "(sid, d) \<in> set (span_duration_mapping M)"
  shows "0 \<le> d \<and> d \<le> MAX_DURATION K"
proof -
  from assms(1,3) obtain raw where "0 < raw" "d = min raw (MAX_DURATION K)"
    unfolding collected_inv_def by blast
  with assms(2) show ?thesis by auto
qed

lemma map_adjust_one_spec:
  assumes "\<forall>(sid, d)\<in>set dm. 0 \<le> d \<and> d \<le> MAX_DURATION K"
  shows "map (adjust_one K self sm) dm = map (\<lambda>(sid, d). (sid, spec_adjusted K self (map_of sm sid) d)) dm"
  using assms by (intro map_cong) (auto simp: adjust_one_spec)

lemma adjusted_spec:
  assumes inv: "collected_inv K M" and m: "0 \<le> MAX_DURATION K"
    and n: "minus_average self" "span_average_durations self \<noteq> []"
  shows "snd (adjusted_span_durations K self client M) =
     map (\<lambda>(sid, d). (sid, spec_adjusted K self (resolved_identity K self client M sid) d))
       (span_duration_mapping M)"
proof -
  have r: "\<forall>(sid, d)\<in>set (span_duration_mapping M). 0 \<le> d \<and> d \<le> MAX_DURATION K"
    using collected_in_range[OF inv m] by blast
  have s: "choose_strategy self M \<noteq> Unadjusted" using n by (simp add: choose_strategy_def)
  show ?thesis
  proof (cases "choose_strategy self M")
    case Direct
    then show ?thesis
      by (simp add: adjusted_span_durations_def resolved_identity_def adjust_durations_directly_def
            map_adjust_one_spec[OF r])
  next
    case Resample
    then show ?thesis
      by (simp add: adjusted_span_durations_def resolved_identity_def
            adjust_durations_with_span_average_def Let_def map_adjust_one_spec[OF r])
  next
    case Unadjusted
    with s show ?thesis by simp
  qed
qed

lemma spec_adjusted_range:
  assumes "0 \<le> d" "d \<le> MAX_DURATION K"
  shows "0 \<le> spec_adjusted K self identity d \<and> spec_adjusted K self identity d \<le> MAX_DURATION K"
  using assms by (auto simp: spec_adjusted_def split: option.splits)

lemma spec_adjusted_no_baseline:
  assumes "0 \<le> d" "d \<le> MAX_DURATION K"
    "identity = None \<or> (\<exists>sv op. identity = Some (sv, op) \<and> map_of (span_average_durations self) (combined_key sv op) = None)"
  shows "spec_adjusted K self identity d = d"
  using assms by (auto simp: spec_adjusted_def dict_get_def split: option.splits)

text \<open>
  C5. Under normalization every span with resolved names gets the adjusted duration
  max(0, clamped raw duration - baseline of its key), clamped again to the ceiling, and a
  span without a baseline entry or without resolved names keeps its clamped raw duration.
  Every collected duration is a positive raw duration cut at the ceiling, so adjusted
  durations lie between 0 and the ceiling: raw 500 against baseline 200 gives 300, raw 500
  against baseline 600 gives 0.
\<close>

theorem C5_normalized_durations:
  "(0 \<le> MAX_DURATION K \<and> minus_average self \<and> span_average_durations self \<noteq> [] \<longrightarrow>
      snd (adjusted_span_durations K self client (collect_logs K self logs)) =
        map (\<lambda>(sid, d). (sid, spec_adjusted K self
                                 (resolved_identity K self client (collect_logs K self logs) sid) d))
          (span_duration_mapping (collect_logs K self logs)) \<and>
      (\<forall>(sid, d)\<in>set (span_duration_mapping (collect_logs K self logs)).
          (\<exists>raw. 0 < raw \<and> d = min raw (MAX_DURATION K)) \<and>
          (resolved_identity K self client (collect_logs K self logs) sid = None \<or>
           (\<exists>sv op. resolved_identity K self client (collect_logs K self logs) sid = Some (sv, op) \<and>
                map_of (span_average_durations self) (combined_key sv op) = None)
           \<longrightarrow> spec_adjusted K self
                 (resolved_identity K self client (collect_logs K self logs) sid) d = d)) \<and>
      (\<forall>(sid, a)\<in>set (snd (adjusted_span_durations K self client (collect_logs K self logs))).
          0 \<le> a \<and> a \<le> MAX_DURATION K))
   \<and> snd (adjusted_span_durations example_constants baseline_finder no_lookup
             (collect_logs example_constants baseline_finder example_normalization))
       = [(''s1'', 300), (''s2'', 0), (''s3'', 400)]"
proof (intro conjI impI)
  assume a: "0 \<le> MAX_DURATION K \<and> minus_average self \<and> span_average_durations self \<noteq> []"
  let ?M = "collect_logs K self logs"
  have inv: "collected_inv K ?M" by (rule collected_inv_collect_logs)
  have m: "0 \<le> MAX_DURATION K" using a by simp
  show eq: "snd (adjusted_span_durations K self client ?M) =
        map (\<lambda>(sid, d). (sid, spec_adjusted K self (resolved_identity K self client ?M sid) d))
          (span_duration_mapping ?M)"
    using adjusted_spec[OF inv m] a by blast
  show "\<forall>(sid, d)\<in>set (span_duration_mapping ?M).
          (\<exists>raw. 0 < raw \<and> d = min raw (MAX_DURATION K)) \<and>
          (resolved_identity K self client ?M sid = None \<or>
           (\<exists>sv op. resolved_identity K self client ?M sid = Some (sv, op) \<and>
                map_of (span_average_durations self) (combined_key sv op) = None)
           \<longrightarrow> spec_adjusted K self (resolved_identity K self client ?M sid) d = d)"
  proof (clarify, intro conjI impI)
    fix sid d assume mem: "(sid, d) \<in> set (span_duration_mapping ?M)"
    show "\<exists>raw. 0 < raw \<and> d = min raw (MAX_DURATION K)"
      using inv mem unfolding collected_inv_def by blast
    assume "resolved_identity K self client ?M sid = None \<or>
           (\<exists>sv op. resolved_identity K self client ?M sid = Some (sv, op) \<and>
                map_of (span_average_durations self) (combined_key sv op) = None)"
    with collected_in_range[OF inv m mem]
    show "spec_adjusted K self (resolved_identity K self client ?M sid) d = d"
      using spec_adjusted_no_baseline by blast
  qed
  show "\<forall>(sid, a)\<in>set (snd (adjusted_span_durations K self client ?M)). 0 \<le> a \<and> a \<le> MAX_DURATION K"
    unfolding eq using collected_in_range[OF inv m] spec_adjusted_range by fastforce
next
  show "snd (adjusted_span_durations example_constants baseline_finder no_lookup
             (collect_logs example_constants baseline_finder example_normalization))
       = [(''s1'', 300), (''s2'', 0), (''s3'', 400)]"
    by code_simp
qed

theorem C5_normalized_durations_witness:
  "0 \<le> MAX_DURATION example_constants \<and> minus_average baseline_finder \<and>
   span_average_durations baseline_finder \<noteq> [] \<and>
   snd (adjusted_span_durations example_constants baseline_finder no_lookup
          (collect_logs example_constants baseline_finder example_normalization)) =
     map (\<lambda>(sid, d). (sid, spec_adjusted example_constants baseline_finder
            (resolved_identity example_constants baseline_finder no_lookup
               (collect_logs example_constants baseline_finder example_normalization) sid) d))
       (span_duration_mapping (collect_logs example_constants baseline_finder example_normalization))"
proof -
  have h: "0 \<le> MAX_DURATION example_constants \<and> minus_average baseline_finder \<and>
      span_average_durations baseline_finder \<noteq> []"
    by (simp add: example_constants_def baseline_finder_def)
  from C5_normalized_durations[of example_constants baseline_finder no_lookup example_normalization] h
  show ?thesis by blast
qed


section \<open>Per-trace top-1 selection under normalization\<close>

lemma py_max_from_first:
  "(py_max_from key best xs = best \<and> (\<forall>y\<in>set xs. key y \<le> key best)) \<or>
   (\<exists>i<length xs. xs ! i = py_max_from key best xs \<and> key best < key (py_max_from key best xs) \<and>
       (\<forall>j<i. key (xs ! j) < key (py_max_from key best xs)) \<and>
       (\<forall>y\<in>set xs. key y \<le> key (py_max_from key best xs)))"
proof (induction xs arbitrary: best)
  case Nil
  show ?case by simp
next
  case (Cons x xs)
  let ?b = "if key x > key best then x else best"
  let ?r = "py_max_from key ?b xs"
  have r: "py_max_from key best (x # xs) = ?r" by simp
  have bb: "key best \<le> key ?b" "key x \<le> key ?b" by auto
  from Cons.IH[of ?b] consider
      (keep) "?r = ?b" "\<forall>y\<in>set xs. key y \<le> key ?b"
    | (later) i where "i < length xs" "xs ! i = ?r" "key ?b < key ?r"
        "\<forall>j<i. key (xs ! j) < key ?r" "\<forall>y\<in>set xs. key y \<le> key ?r"
    by blast
  then show ?case
  proof cases
    case keep
    show ?thesis
    proof (cases "key x > key best")
      case True
      with keep have rx: "?r = x" by simp
      have "0 < length (x # xs) \<and> (x # xs) ! 0 = ?r \<and> key best < key ?r \<and>
          (\<forall>j<0. key ((x # xs) ! j) < key ?r) \<and> (\<forall>y\<in>set (x # xs). key y \<le> key ?r)"
        using rx True keep(2) by auto
      then show ?thesis unfolding r by blast
    next
      case False
      with keep have "?r = best" "\<forall>y\<in>set (x # xs). key y \<le> key best" by auto
      then show ?thesis unfolding r by simp
    qed
  next
    case later
    have first: "\<forall>j<Suc i. key ((x # xs) ! j) < key ?r"
    proof (intro allI impI)
      fix j assume "j < Suc i"
      show "key ((x # xs) ! j) < key ?r"
      proof (cases j)
        case 0
        then show ?thesis using bb(2) later(3) by simp
      next
        case (Suc j')
        with \<open>j < Suc i\<close> later(4) show ?thesis by simp
      qed
    qed
    have "Suc i < length (x # xs) \<and> (x # xs) ! Suc i = ?r \<and> key best < key ?r \<and>
          (\<forall>y\<in>set (x # xs). key y \<le> key ?r)"
      using later bb by auto
    with first show ?thesis unfolding r by blast
  qed
qed

lemma py_max_first:
  assumes "py_max key xs = Some r"
  shows "\<exists>i<length xs. xs ! i = r \<and> (\<forall>j<i. key (xs ! j) < key r) \<and> (\<forall>y\<in>set xs. key y \<le> key r)"
proof -
  from assms obtain x rest where xs: "xs = x # rest" and r: "r = py_max_from key x rest"
    by (auto simp: py_max_def split: list.splits)
  from py_max_from_first[of key x rest] consider
      (keep) "r = x" "\<forall>y\<in>set rest. key y \<le> key x"
    | (later) i where "i < length rest" "rest ! i = r" "key x < key r"
        "\<forall>j<i. key (rest ! j) < key r" "\<forall>y\<in>set rest. key y \<le> key r"
    unfolding r by blast
  then show ?thesis
  proof cases
    case keep
    then have "0 < length xs \<and> xs ! 0 = r \<and> (\<forall>j<0. key (xs ! j) < key r) \<and> (\<forall>y\<in>set xs. key y \<le> key r)"
      using xs by auto
    then show ?thesis by blast
  next
    case later
    have first: "\<forall>j<Suc i. key (xs ! j) < key r"
    proof (intro allI impI)
      fix j assume "j < Suc i"
      show "key (xs ! j) < key r"
      proof (cases j)
        case 0
        then show ?thesis using xs later(3) by simp
      next
        case (Suc j')
        with \<open>j < Suc i\<close> later(4) xs show ?thesis by simp
      qed
    qed
    have "Suc i < length xs \<and> xs ! Suc i = r \<and> (\<forall>y\<in>set xs. key y \<le> key r)"
      using later xs by auto
    with first show ?thesis by blast
  qed
qed

lemma py_max_None: "py_max key xs = None \<longleftrightarrow> xs = []"
  by (simp add: py_max_def split: list.splits)

lemma adjusted_spans_positive:
  "map (\<lambda>(sid, i, adj, orig). (sid, i, orig)) (adjusted_spans K self sl zs) =
   map (\<lambda>(sid, i, raw). (sid, i, min raw (MAX_DURATION K))) (positive_spans zs)"
  by (induction K self sl zs rule: adjusted_spans.induct) (simp_all add: Let_def)

lemma adjusted_spans_adjusted:
  "(sid, i, adj, orig) \<in> set (adjusted_spans K self sl zs) \<Longrightarrow>
     adj = top1_adjusted_duration K self sl i orig"
  by (induction K self sl zs rule: adjusted_spans.induct) (auto simp: Let_def split: if_splits)

lemma adjusted_key: "(\<lambda>(sid, span_index, adjusted_duration, original_duration). adjusted_duration) = adjusted_of"
  by (auto simp: adjusted_of_def fun_eq_iff)

lemma collect_log_top1:
  assumes mode: "only_top1_per_trace self" "minus_average self" "span_average_durations self \<noteq> []"
    and len: "length (span_ids row) = length (exclusive_durations row)"
             "length (span_ids row) = length (span_indices row)"
  shows "collect_log K self M row =
     (case py_max adjusted_of (top1_candidates K self row) of
        None \<Rightarrow> M
      | Some (sid, i, adj, orig) \<Rightarrow>
          store_names (M\<lparr>span_duration_mapping := dict_set (span_duration_mapping M) sid orig\<rparr>)
            sid (span_list row) i)"
  using mode len by (simp add: collect_log_def top1_candidates_def adjusted_key)

lemma collect_log_top1_choice:
  assumes mode: "only_top1_per_trace self" "minus_average self" "span_average_durations self \<noteq> []"
    and len: "length (span_ids row) = length (exclusive_durations row)"
             "length (span_ids row) = length (span_indices row)"
    and ne: "top1_candidates K self row \<noteq> []"
  shows "\<exists>n<length (top1_candidates K self row).
           (case top1_candidates K self row ! n of
              (sid, i, adj, orig) \<Rightarrow>
                collect_log K self M row =
                  store_names (M\<lparr>span_duration_mapping := dict_set (span_duration_mapping M) sid orig\<rparr>)
                    sid (span_list row) i) \<and>
           (\<forall>c\<in>set (top1_candidates K self row).
               adjusted_of c \<le> adjusted_of (top1_candidates K self row ! n)) \<and>
           (\<forall>j<n. adjusted_of (top1_candidates K self row ! j)
                     < adjusted_of (top1_candidates K self row ! n))"
proof -
  let ?c = "top1_candidates K self row"
  from ne obtain r where r: "py_max adjusted_of ?c = Some r"
    using py_max_None[of adjusted_of ?c] by (cases "py_max adjusted_of ?c") auto
  from py_max_first[OF r] obtain n where n: "n < length ?c" "?c ! n = r"
    "\<forall>j<n. adjusted_of (?c ! j) < adjusted_of r" "\<forall>y\<in>set ?c. adjusted_of y \<le> adjusted_of r"
    by blast
  obtain sid i adj orig where t: "r = (sid, i, adj, orig)" by (cases r) auto
  have "collect_log K self M row =
      store_names (M\<lparr>span_duration_mapping := dict_set (span_duration_mapping M) sid orig\<rparr>)
        sid (span_list row) i"
    using collect_log_top1[OF mode len, of K M] r t by simp
  with n t show ?thesis by auto
qed

text \<open>
  C6, as stated, fails on the tie-break: \<open>max(adjusted_spans, key=...)\<close> keeps the first
  span of the row among those with the largest adjusted duration, whatever the span ids.
  With y (adjusted 5) before x (adjusted 5) in the row, y is selected, not the smaller
  id x.
\<close>

theorem C6_counterexample:
  "top1_candidates example_constants top1_finder example_tie_row
     = [(''y'', 0, 5, 7), (''x'', 1, 5, 6)]
   \<and> find_top_95_percent_spans example_constants top1_finder no_lookup (Inr [example_tie_row]) = [''y'']"
  by code_simp

text \<open>
  C6, amended. With \<open>only_top1_per_trace\<close> and normalization both active, every span of a
  row (one trace) with a positive numeric duration becomes a candidate carrying its
  baseline-subtracted duration, computed before the choice; the span stored for the trace
  is a candidate of maximal adjusted (not raw) duration, and among several such candidates
  the one that comes first in the row. For A (raw 10, baseline 2), B (12, 10), C (8, 1) the
  selected span is A.
\<close>

theorem C6_top1_after_normalization:
  "(only_top1_per_trace self \<and> minus_average self \<and> span_average_durations self \<noteq> [] \<and>
    length (span_ids row) = length (exclusive_durations row) \<and>
    length (span_ids row) = length (span_indices row) \<longrightarrow>
      map (\<lambda>(sid, i, adj, orig). (sid, i, orig)) (top1_candidates K self row) =
        map (\<lambda>(sid, i, raw). (sid, i, min raw (MAX_DURATION K))) (positive_spans (zipped row)) \<and>
      (\<forall>(sid, i, adj, orig)\<in>set (top1_candidates K self row).
          adj = top1_adjusted_duration K self (span_list row) i orig) \<and>
      (top1_candidates K self row = [] \<longrightarrow> collect_log K self M row = M) \<and>
      (top1_candidates K self row \<noteq> [] \<longrightarrow>
         (\<exists>n<length (top1_candidates K self row).
            (case top1_candidates K self row ! n of
               (sid, i, adj, orig) \<Rightarrow>
                 collect_log K self M row =
                   store_names (M\<lparr>span_duration_mapping := dict_set (span_duration_mapping M) sid orig\<rparr>)
                     sid (span_list row) i) \<and>
            (\<forall>c\<in>set (top1_candidates K self row).
                adjusted_of c \<le> adjusted_of (top1_candidates K self row ! n)) \<and>
            (\<forall>j<n. adjusted_of (top1_candidates K self row ! j)
                      < adjusted_of (top1_candidates K self row ! n)))))
   \<and> find_top_95_percent_spans example_constants top1_finder no_lookup (Inr [example_top1_row]) = [''A'']"
proof (intro conjI impI)
  show "find_top_95_percent_spans example_constants top1_finder no_lookup (Inr [example_top1_row]) = [''A'']"
    by code_simp
next
  show "map (\<lambda>(sid, i, adj, orig). (sid, i, orig)) (top1_candidates K self row) =
        map (\<lambda>(sid, i, raw). (sid, i, min raw (MAX_DURATION K))) (positive_spans (zipped row))"
    unfolding top1_candidates_def by (rule adjusted_spans_positive)
next
  show "\<forall>(sid, i, adj, orig)\<in>set (top1_candidates K self row).
          adj = top1_adjusted_duration K self (span_list row) i orig"
    unfolding top1_candidates_def using adjusted_spans_adjusted by blast
next
  assume a: "only_top1_per_trace self \<and> minus_average self \<and> span_average_durations self \<noteq> [] \<and>
    length (span_ids row) = length (exclusive_durations row) \<and>
    length (span_ids row) = length (span_indices row)"
    and e: "top1_candidates K self row = []"
  from a have "collect_log K self M row =
     (case py_max adjusted_of (top1_candidates K self row) of
        None \<Rightarrow> M
      | Some (sid, i, adj, orig) \<Rightarrow>
          store_names (M\<lparr>span_duration_mapping := dict_set (span_duration_mapping M) sid orig\<rparr>)
            sid (span_list row) i)"
    by (intro collect_log_top1) simp_all
  with e show "collect_log K self M row = M" by (simp add: py_max_def)
next
  assume a: "only_top1_per_trace self \<and> minus_average self \<and> span_average_durations self \<noteq> [] \<and>
    length (span_ids row) = length (exclusive_durations row) \<and>
    length (span_ids row) = length (span_indices row)"
    and ne: "top1_candidates K self row \<noteq> []"
  from a ne show "\<exists>n<length (top1_candidates K self row).
            (case top1_candidates K self row ! n of
               (sid, i, adj, orig) \<Rightarrow>
                 collect_log K self M row =
                   store_names (M\<lparr>span_duration_mapping := dict_set (span_duration_mapping M) sid orig\<rparr>)
                     sid (span_list row) i) \<and>
            (\<forall>c\<in>set (top1_candidates K self row).
                adjusted_of c \<le> adjusted_of (top1_candidates K self row ! n)) \<and>
            (\<forall>j<n. adjusted_of (top1_candidates K self row ! j)
                      < adjusted_of (top1_candidates K self row ! n))"
    by (intro collect_log_top1_choice) simp_all
qed

theorem C6_top1_after_normalization_witness:
  "only_top1_per_trace top1_finder \<and> minus_average top1_finder \<and>
   span_average_durations top1_finder \<noteq> [] \<and>
   length (span_ids example_top1_row) = length (exclusive_durations example_top1_row) \<and>
   length (span_ids example_top1_row) = length (span_indices example_top1_row) \<and>
   top1_candidates example_constants top1_finder example_top1_row
     = [(''A'', 0, 8, 10), (''B'', 1, 2, 12), (''C'', 2, 7, 8)] \<and>
   (\<exists>n<length (top1_candidates example_constants top1_finder example_top1_row).
      (\<forall>j<n. adjusted_of (top1_candidates example_constants top1_finder example_top1_row ! j)
                < adjusted_of (top1_candidates example_constants top1_finder example_top1_row ! n)))"
proof -
  have h: "only_top1_per_trace top1_finder \<and> minus_average top1_finder \<and>
      span_average_durations top1_finder \<noteq> [] \<and>
      length (span_ids example_top1_row) = length (exclusive_durations example_top1_row) \<and>
      length (span_ids example_top1_row) = length (span_indices example_top1_row)"
    by (simp add: top1_finder_def example_top1_row_def)
  have c: "top1_candidates example_constants top1_finder example_top1_row
     = [(''A'', 0, 8, 10), (''B'', 1, 2, 12), (''C'', 2, 7, 8)]"
    by code_simp
  then have ne: "top1_candidates example_constants top1_finder example_top1_row \<noteq> []" by simp
  from C6_top1_after_normalization[of top1_finder example_top1_row example_constants
      "\<lparr>span_duration_mapping = [], span_service_mapping = []\<rparr>"] h ne
  have "\<exists>n<length (top1_candidates example_constants top1_finder example_top1_row).
      (\<forall>j<n. adjusted_of (top1_candidates example_constants top1_finder example_top1_row ! j)
                < adjusted_of (top1_candidates example_constants top1_finder example_top1_row ! n))"
    by blast
  with h c show ?thesis by blast
qed


section \<open>Clamping in the two windows\<close>

text \<open>
  C9 holds for the anomaly window and fails for the reference window. The collecting loop
  of \<open>_process_exclusive_duration_data\<close> cuts every duration at \<open>MAX_DURATION\<close> (lines 316,
  381 and 412, commented as the treatment of outliers), while the loop of
  \<open>_calculate_span_averages\<close> stores the duration as it came (line 822): the same row
  gives 5000000 in the ranking and a baseline of 6000000.
\<close>

theorem C9_baseline_sample_above_ceiling:
  "MAX_DURATION example_constants = 5000000
   \<and> span_duration_mapping (collect_logs example_constants plain_finder [example_outlier_row])
       = [(''s1'', 5000000)]
   \<and> calculate_span_averages example_constants example_lookup (Inr [example_outlier_row])
       = [(''svc<sep>op'', 6000000)]"
  by code_simp


section \<open>The baseline averages\<close>

lemma group_service_logs_append:
  "group_service_logs dm sd (xs @ ys) = group_service_logs dm (group_service_logs dm sd xs) ys"
  by (induction xs arbitrary: sd) simp_all

lemma group_batches_answered:
  "group_batches client dm sd bs = group_service_logs dm sd (answered client bs)"
proof (induction bs arbitrary: sd)
  case Nil
  show ?case by (simp add: answered_def)
next
  case (Cons b bs)
  show ?case
  proof (cases "client b")
    case (Inl e)
    with Cons show ?thesis by (simp add: answered_def)
  next
    case (Inr ls)
    have "answered client (b # bs) = ls @ answered client bs" using Inr by (simp add: answered_def)
    with Cons Inr show ?thesis by (simp add: group_service_logs_append)
  qed
qed

lemma group_service_logs_get:
  "dict_get (group_service_logs dm sd ls) k [] = dict_get sd k [] @ key_samples dm ls k"
proof (induction ls arbitrary: sd)
  case Nil
  show ?case by (simp add: key_samples_def)
next
  case (Cons l ls)
  have ks: "key_samples dm (l # ls) k = sample_of dm k l @ key_samples dm ls k"
    by (simp add: key_samples_def)
  show ?case
    unfolding ks
    by (simp add: Cons.IH)
       (auto simp: sample_of_def dict_get_dict_set split: option.splits)
qed

lemma group_service_logs_distinct:
  "distinct (map fst sd) \<Longrightarrow> distinct (map fst (group_service_logs dm sd ls))"
  by (induction ls arbitrary: sd) (auto simp: distinct_dict_set split: option.splits)

lemma store_averages_map_of:
  "distinct (map fst sd) \<Longrightarrow>
   map_of (store_averages avgs sd) k =
     (case map_of sd k of
        None \<Rightarrow> map_of avgs k
      | Some ds \<Rightarrow> if ds \<noteq> [] then Some (mean ds) else map_of avgs k)"
proof (induction sd arbitrary: avgs)
  case Nil
  show ?case by simp
next
  case (Cons a sd)
  obtain k0 ds0 where a: "a = (k0, ds0)" by (cases a)
  from Cons.prems a have d: "distinct (map fst sd)" and n: "k0 \<notin> fst ` set sd" by auto
  from n have none: "map_of sd k0 = None" by (simp add: map_of_eq_None_iff)
  show ?case
    using Cons.IH[OF d] a none by (auto simp: map_of_dict_set split: option.splits)
qed

lemma query_span_names_map_of:
  "map_of (query_span_names_for_spans K client dm0) k =
     (let dm = retained (TRACES_FOR_AVG_RT K) dm0;
          ds = key_samples dm (answered client (batches (map fst dm))) k
      in if ds = [] then None else Some (mean ds))"
proof -
  let ?dm = "retained (TRACES_FOR_AVG_RT K) dm0"
  let ?sd = "group_service_logs ?dm [] (answered client (batches (map fst ?dm)))"
  have d: "distinct (map fst ?sd)" by (rule group_service_logs_distinct) simp
  have "dict_get ?sd k [] = dict_get [] k [] @ key_samples ?dm (answered client (batches (map fst ?dm))) k"
    by (rule group_service_logs_get)
  moreover have "dict_get ([] :: (string \<times> real list) list) k [] = []" by (simp add: dict_get_def)
  ultimately have g: "dict_get ?sd k [] = key_samples ?dm (answered client (batches (map fst ?dm))) k"
    by simp
  have "map_of (store_averages [] ?sd) k =
      (if dict_get ?sd k [] = [] then None else Some (mean (dict_get ?sd k [])))"
    unfolding store_averages_map_of[OF d]
    by (auto simp: dict_get_def split: option.splits)
  then show ?thesis
    by (simp add: query_span_names_for_spans_def Let_def group_batches_answered g)
qed

lemma collect_positive_distinct:
  "distinct (map fst dm) \<Longrightarrow> distinct (map fst (collect_positive dm zs))"
  by (induction dm zs rule: collect_positive.induct) (auto simp: distinct_dict_set)

lemma collect_positive_mem:
  "(sid, d) \<in> set (collect_positive dm zs) \<Longrightarrow>
     (sid, d) \<in> set dm \<or> (0 < d \<and> (sid, Num d) \<in> set zs)"
proof (induction dm zs rule: collect_positive.induct)
  case (1 dm)
  then show ?case by simp
next
  case (2 dm s rest)
  then show ?case by auto
next
  case (3 dm s duration rest)
  show ?case
  proof (cases "duration > 0")
    case True
    with 3 have "(sid, d) \<in> set (dict_set dm s duration) \<or> (0 < d \<and> (sid, Num d) \<in> set rest)"
      by simp
    moreover have "set (dict_set dm s duration) \<subseteq> insert (s, duration) (set dm)"
      by (rule set_dict_set_subset)
    ultimately show ?thesis using True by auto
  next
    case False
    with 3 show ?thesis by auto
  qed
qed

lemma collect_positive_keys_mono:
  "fst ` set dm \<subseteq> fst ` set (collect_positive dm zs)"
proof (induction dm zs rule: collect_positive.induct)
  case (3 dm s duration rest)
  show ?case
  proof (cases "duration > 0")
    case True
    have "fst ` set dm \<subseteq> fst ` set (dict_set dm s duration)" by (auto simp: keys_dict_set)
    with 3 True show ?thesis by auto
  next
    case False
    with 3 show ?thesis by simp
  qed
qed simp_all

lemma collect_positive_complete:
  "(sid, Num d) \<in> set zs \<Longrightarrow> 0 < d \<Longrightarrow> sid \<in> fst ` set (collect_positive dm zs)"
proof (induction dm zs rule: collect_positive.induct)
  case (1 dm)
  then show ?case by simp
next
  case (2 dm s rest)
  then show ?case by auto
next
  case (3 dm s duration rest)
  show ?case
  proof (cases "(sid, Num d) = (s, Num duration)")
    case True
    with "3.prems" have pos: "duration > 0" and eq: "sid = s" by auto
    have "s \<in> fst ` set (dict_set dm s duration)" by (simp add: keys_dict_set)
    with collect_positive_keys_mono[of "dict_set dm s duration" rest] pos eq
    show ?thesis by auto
  next
    case False
    with "3.prems" have "(sid, Num d) \<in> set rest" by auto
    with 3 show ?thesis by (cases "duration > 0") auto
  qed
qed

lemma reference_collect_inv:
  assumes "distinct (map fst dm)" "\<forall>(sid, d)\<in>set dm. reference_sample (done_logs) sid d"
  shows "distinct (map fst (foldl collect_reference_log dm logs)) \<and>
         (\<forall>(sid, d)\<in>set (foldl collect_reference_log dm logs). reference_sample (done_logs @ logs) sid d)"
  using assms
proof (induction logs arbitrary: dm done_logs)
  case Nil
  then show ?case by simp
next
  case (Cons row logs)
  let ?dm = "collect_reference_log dm row"
  have d: "distinct (map fst ?dm)"
    using Cons.prems(1) by (simp add: collect_reference_log_def collect_positive_distinct)
  have s: "\<forall>(sid, d)\<in>set ?dm. reference_sample (done_logs @ [row]) sid d"
  proof (clarify)
    fix sid d assume m: "(sid, d) \<in> set ?dm"
    show "reference_sample (done_logs @ [row]) sid d"
    proof (cases "length (span_ids row) = length (exclusive_durations row)")
      case False
      with m Cons.prems(2) show ?thesis
        by (auto simp: collect_reference_log_def reference_sample_def)
    next
      case True
      with m have "(sid, d) \<in> set dm \<or>
          (0 < d \<and> (sid, Num d) \<in> set (zip (span_ids row) (exclusive_durations row)))"
        using collect_positive_mem by (simp add: collect_reference_log_def)
      with True Cons.prems(2) show ?thesis by (auto simp: reference_sample_def)
    qed
  qed
  from Cons.IH[OF d s] show ?case by simp
qed

lemma reference_collect_complete:
  "reference_sample logs sid d \<Longrightarrow> sid \<in> fst ` set (foldl collect_reference_log dm logs)"
proof (induction logs arbitrary: dm)
  case Nil
  then show ?case by (simp add: reference_sample_def)
next
  case (Cons row logs)
  show ?case
  proof (cases "reference_sample logs sid d")
    case True
    from Cons.IH[OF this] show ?thesis by simp
  next
    case False
    with Cons.prems have r: "0 < d" "length (span_ids row) = length (exclusive_durations row)"
      "(sid, Num d) \<in> set (zip (span_ids row) (exclusive_durations row))"
      by (auto simp: reference_sample_def)
    then have "sid \<in> fst ` set (collect_reference_log dm row)"
      using collect_positive_complete by (simp add: collect_reference_log_def)
    moreover have "\<And>dm'. fst ` set dm' \<subseteq> fst ` set (foldl collect_reference_log dm' logs)"
    proof -
      fix dm'
      show "fst ` set dm' \<subseteq> fst ` set (foldl collect_reference_log dm' logs)"
      proof (induction logs arbitrary: dm')
        case Nil
        show ?case by simp
      next
        case (Cons r rs)
        have "fst ` set dm' \<subseteq> fst ` set (collect_reference_log dm' r)"
          using collect_positive_keys_mono by (simp add: collect_reference_log_def)
        with Cons[of "collect_reference_log dm' r"] show ?case by auto
      qed
    qed
    ultimately show ?thesis by auto
  qed
qed

lemma collect_positive_none:
  "list_all (\<lambda>v. case v of Num d \<Rightarrow> \<not> d > 0 | NotNum \<Rightarrow> True) (map snd zs) \<Longrightarrow>
   collect_positive dm zs = dm"
  by (induction dm zs rule: collect_positive.induct) auto

lemma reference_collect_none:
  "no_positive_duration logs \<Longrightarrow> foldl collect_reference_log dm logs = dm"
proof (induction logs arbitrary: dm)
  case Nil
  show ?case by simp
next
  case (Cons row logs)
  then have all: "list_all (\<lambda>v. case v of Num d \<Rightarrow> \<not> d > 0 | NotNum \<Rightarrow> True) (exclusive_durations row)"
    and rest: "no_positive_duration logs"
    by (simp_all add: no_positive_duration_def)
  have "collect_reference_log dm row = dm"
  proof (cases "length (span_ids row) = length (exclusive_durations row)")
    case True
    then have "map snd (zip (span_ids row) (exclusive_durations row)) = exclusive_durations row"
      by simp
    with all show ?thesis
      by (simp add: collect_reference_log_def collect_positive_none)
  next
    case False
    then show ?thesis by (simp add: collect_reference_log_def)
  qed
  with Cons.IH[OF rest] show ?case by simp
qed

lemma insort_key_map: "insort_key f (g x) (map g ys) = map g (insort_key (\<lambda>a. f (g a)) x ys)"
  by (induction ys) auto

lemma sort_key_map: "sort_key f (map g xs) = map g (sort_key (\<lambda>a. f (g a)) xs)"
  by (induction xs) (simp_all add: insort_key_map)

lemma insort_key_agree:
  "f x = g x \<Longrightarrow> \<forall>y\<in>set ys. f y = g y \<Longrightarrow> insort_key f x ys = insort_key g x ys"
  by (induction ys) auto

lemma sort_key_agree: "\<forall>x\<in>set xs. f x = g x \<Longrightarrow> sort_key f xs = sort_key g xs"
proof (induction xs)
  case Nil
  show ?case by simp
next
  case (Cons x xs)
  then have "sort_key f xs = sort_key g xs" by simp
  moreover have "insort_key f x (sort_key g xs) = insort_key g x (sort_key g xs)"
    using Cons.prems by (intro insort_key_agree) auto
  ultimately show ?case by simp
qed

lemma dict_get_distinct:
  "distinct (map fst dm) \<Longrightarrow> x \<in> set dm \<Longrightarrow> dict_get dm (fst x) dflt = snd x"
  by (cases x) (simp add: dict_get_def)

lemma sorted_desc_sort_desc:
  assumes "distinct (map fst dm)"
  shows "sorted_desc dm = map fst (sort_desc dm)"
proof -
  have "sorted_desc dm = map fst (sort_key (\<lambda>x. - dict_get dm (fst x) 0) dm)"
    by (simp add: sorted_desc_def sort_key_map)
  also have "sort_key (\<lambda>x. - dict_get dm (fst x) 0) dm = sort_key (\<lambda>x. - snd x) dm"
    using dict_get_distinct[OF assms] by (intro sort_key_agree) simp
  finally show ?thesis by (simp add: sort_desc_def)
qed

lemma retained_take:
  assumes "distinct (map fst dm)"
  shows "retained cap dm = (if length dm > cap then take cap (sort_desc dm) else dm)"
proof (cases "length dm > cap")
  case False
  then show ?thesis by (simp add: retained_def)
next
  case True
  have "map (\<lambda>sid. (sid, dict_get dm sid 0)) (take cap (map fst (sort_desc dm))) =
        map (\<lambda>x. (fst x, dict_get dm (fst x) 0)) (take cap (sort_desc dm))"
    by (simp add: take_map)
  also have "\<dots> = map (\<lambda>x. x) (take cap (sort_desc dm))"
  proof (intro map_cong refl)
    fix x assume "x \<in> set (take cap (sort_desc dm))"
    then have "x \<in> set (sort_desc dm)" by (rule in_set_takeD)
    then have "x \<in> set dm" by (simp add: sort_desc_def)
    from dict_get_distinct[OF assms this] show "(fst x, dict_get dm (fst x) 0) = x" by simp
  qed
  finally show ?thesis using True by (simp add: retained_def sorted_desc_sort_desc[OF assms])
qed

lemma take_sort_desc_largest:
  "\<forall>x\<in>set (take n (sort_desc dm)). \<forall>y\<in>set (drop n (sort_desc dm)). snd y \<le> snd x"
proof -
  have "sorted_wrt (\<lambda>a b. snd a \<ge> snd b) (take n (sort_desc dm) @ drop n (sort_desc dm))"
    using sort_desc_descending[of dm] by simp
  then show ?thesis unfolding sorted_wrt_append by blast
qed

lemma adjust_one_missing_key:
  assumes "\<forall>sv op. map_of sm sid = Some (sv, op) \<longrightarrow>
             map_of (span_average_durations self) (combined_key sv op) = None"
  shows "adjust_one K self sm (sid, d) = (sid, d)"
  using assms by (auto simp: adjust_one_def split: option.splits)

lemma calculate_map_of:
  "map_of (calculate_span_averages K client (Inr logs)) k =
     (let dm = retained (TRACES_FOR_AVG_RT K) (foldl collect_reference_log [] logs);
          ds = key_samples dm (answered client (batches (map fst dm))) k
      in if ds = [] then None else Some (sum_list ds / real (length ds)))"
proof (cases "foldl collect_reference_log [] logs = []")
  case True
  have "key_samples [] (answered client (batches [])) k = []"
    by (simp add: key_samples_def sample_of_def split: option.splits)
  with True show ?thesis
    by (simp add: calculate_span_averages_def retained_def)
next
  case False
  then show ?thesis
    using query_span_names_map_of[of K client "foldl collect_reference_log [] logs" k]
    by (simp add: calculate_span_averages_def Let_def mean_def)
qed

text \<open>
  C7. The baseline computation collects exactly the spans of the reference window with a
  strictly positive numeric duration, one entry per span id; when more than the cap N were
  collected it keeps the first N of the list sorted by descending duration, so every kept
  duration is at least every dropped one; the map it returns gives each key the
  arithmetic mean of the kept durations that the identity lookup resolved to that key, and
  no entry to a key without such a duration; a window without positive durations gives the
  empty map; and a consumer that finds no entry for a span's key leaves the duration as
  it is, which is subtracting 0.
\<close>

theorem C7_baseline_averages:
  "distinct (map fst (foldl collect_reference_log [] logs)) \<and>
   (\<forall>(sid, d)\<in>set (foldl collect_reference_log [] logs). reference_sample logs sid d) \<and>
   (\<forall>sid d. reference_sample logs sid d \<longrightarrow> sid \<in> fst ` set (foldl collect_reference_log [] logs)) \<and>
   (length (foldl collect_reference_log [] logs) > N \<longrightarrow>
      retained N (foldl collect_reference_log [] logs)
        = take N (sort_desc (foldl collect_reference_log [] logs)) \<and>
      length (retained N (foldl collect_reference_log [] logs)) = N \<and>
      (\<forall>x\<in>set (retained N (foldl collect_reference_log [] logs)).
         \<forall>y\<in>set (drop N (sort_desc (foldl collect_reference_log [] logs))). snd y \<le> snd x)) \<and>
   (length (foldl collect_reference_log [] logs) \<le> N \<longrightarrow>
      retained N (foldl collect_reference_log [] logs) = foldl collect_reference_log [] logs) \<and>
   (\<forall>k. map_of (calculate_span_averages K client (Inr logs)) k =
      (let dm = retained (TRACES_FOR_AVG_RT K) (foldl collect_reference_log [] logs);
           ds = key_samples dm (answered client (batches (map fst dm))) k
       in if ds = [] then None else Some (sum_list ds / real (length ds)))) \<and>
   (no_positive_duration logs \<longrightarrow> calculate_span_averages K client (Inr logs) = []) \<and>
   (\<forall>self sm sid d.
      (\<forall>sv op. map_of sm sid = Some (sv, op) \<longrightarrow>
          map_of (span_average_durations self) (combined_key sv op) = None)
      \<longrightarrow> adjust_one K self sm (sid, d) = (sid, d))"
proof -
  let ?dm0 = "foldl collect_reference_log [] logs"
  have inv: "distinct (map fst ?dm0) \<and> (\<forall>(sid, d)\<in>set ?dm0. reference_sample ([] @ logs) sid d)"
    by (rule reference_collect_inv) simp_all
  then have d: "distinct (map fst ?dm0)" and s: "\<forall>(sid, d)\<in>set ?dm0. reference_sample logs sid d"
    by simp_all
  have c: "\<forall>sid d. reference_sample logs sid d \<longrightarrow> sid \<in> fst ` set ?dm0"
    using reference_collect_complete by blast
  have big: "length ?dm0 > N \<longrightarrow>
      retained N ?dm0 = take N (sort_desc ?dm0) \<and> length (retained N ?dm0) = N \<and>
      (\<forall>x\<in>set (retained N ?dm0). \<forall>y\<in>set (drop N (sort_desc ?dm0)). snd y \<le> snd x)"
  proof
    assume l: "length ?dm0 > N"
    have r: "retained N ?dm0 = take N (sort_desc ?dm0)" using l by (simp add: retained_take[OF d])
    have "length (take N (sort_desc ?dm0)) = N" using l by (simp add: sort_desc_def)
    with r take_sort_desc_largest[of N ?dm0]
    show "retained N ?dm0 = take N (sort_desc ?dm0) \<and> length (retained N ?dm0) = N \<and>
      (\<forall>x\<in>set (retained N ?dm0). \<forall>y\<in>set (drop N (sort_desc ?dm0)). snd y \<le> snd x)"
      by simp
  qed
  have small: "length ?dm0 \<le> N \<longrightarrow> retained N ?dm0 = ?dm0" by (simp add: retained_def)
  have m: "\<forall>k. map_of (calculate_span_averages K client (Inr logs)) k =
      (let dm = retained (TRACES_FOR_AVG_RT K) ?dm0;
           ds = key_samples dm (answered client (batches (map fst dm))) k
       in if ds = [] then None else Some (sum_list ds / real (length ds)))"
    using calculate_map_of by blast
  have e: "no_positive_duration logs \<longrightarrow> calculate_span_averages K client (Inr logs) = []"
    by (simp add: calculate_span_averages_def reference_collect_none)
  have a: "\<forall>self sm sid d.
      (\<forall>sv op. map_of sm sid = Some (sv, op) \<longrightarrow>
          map_of (span_average_durations self) (combined_key sv op) = None)
      \<longrightarrow> adjust_one K self sm (sid, d) = (sid, d)"
    using adjust_one_missing_key by blast
  from d s c big small m e a show ?thesis by blast
qed

theorem C7_baseline_averages_witness:
  "length (foldl collect_reference_log [] example_reference) > 2 \<and>
   retained 2 (foldl collect_reference_log [] example_reference) = [(''s2'', 300), (''s3'', 200)] \<and>
   map_of (calculate_span_averages small_cap_constants example_lookup (Inr example_reference))
     ''svc<sep>op'' = Some 250"
proof -
  have dm0: "foldl collect_reference_log [] example_reference
      = [(''s1'', 100), (''s2'', 300), (''s3'', 200)]"
    by code_simp
  have l: "length (foldl collect_reference_log [] example_reference) > 2"
    unfolding dm0 by simp
  have sd: "take 2 (sort_desc [(''s1'', 100), (''s2'', 300), (''s3'', 200)])
      = [(''s2'', 300), (''s3'', 200::real)]"
    by code_simp
  have cap: "TRACES_FOR_AVG_RT small_cap_constants = 2"
    by (simp add: small_cap_constants_def)
  note inst = C7_baseline_averages[of example_reference 2 small_cap_constants example_lookup]
  from inst l have r: "retained 2 (foldl collect_reference_log [] example_reference)
      = [(''s2'', 300), (''s3'', 200)]"
    unfolding dm0 sd by blast
  have ks: "key_samples [(''s2'', 300), (''s3'', 200)]
       (answered example_lookup (batches (map fst [(''s2'', 300), (''s3'', 200::real)]))) ''svc<sep>op''
      = [300, 200]"
    by code_simp
  from inst have "map_of (calculate_span_averages small_cap_constants example_lookup (Inr example_reference))
     ''svc<sep>op'' =
      (let dm = retained (TRACES_FOR_AVG_RT small_cap_constants) (foldl collect_reference_log [] example_reference);
           ds = key_samples dm (answered example_lookup (batches (map fst dm))) ''svc<sep>op''
       in if ds = [] then None else Some (sum_list ds / real (length ds)))"
    by blast
  then have "map_of (calculate_span_averages small_cap_constants example_lookup (Inr example_reference))
     ''svc<sep>op'' = Some 250"
    unfolding cap r Let_def ks by simp
  with l r show ?thesis by blast
qed


section \<open>The percentile cut\<close>

lemma adjust_one_range:
  assumes "0 \<le> MAX_DURATION K" "0 \<le> d" "d \<le> MAX_DURATION K"
  shows "0 \<le> snd (adjust_one K self sm (sid, d)) \<and> snd (adjust_one K self sm (sid, d)) \<le> MAX_DURATION K"
  using assms by (auto simp: adjust_one_def split: option.splits)

lemma adjusted_in_range:
  assumes inv: "collected_inv K M" and m: "0 \<le> MAX_DURATION K"
  shows "\<forall>x\<in>set (snd (adjusted_span_durations K self client M)). 0 \<le> snd x \<and> snd x \<le> MAX_DURATION K"
proof -
  have r: "\<And>sid d. (sid, d) \<in> set (span_duration_mapping M) \<Longrightarrow> 0 \<le> d \<and> d \<le> MAX_DURATION K"
    using collected_in_range[OF inv m] by blast
  have a: "\<And>sm. \<forall>x\<in>set (map (adjust_one K self sm) (span_duration_mapping M)).
      0 \<le> snd x \<and> snd x \<le> MAX_DURATION K"
  proof (clarsimp simp del: not_le)
    fix sm sid d assume "(sid, d) \<in> set (span_duration_mapping M)"
    from r[OF this] adjust_one_range[OF m, of d self sm sid]
    show "0 \<le> snd (adjust_one K self sm (sid, d)) \<and> snd (adjust_one K self sm (sid, d)) \<le> MAX_DURATION K"
      by blast
  qed
  show ?thesis
  proof (cases "choose_strategy self M")
    case Direct
    then show ?thesis using a by (simp add: adjusted_span_durations_def adjust_durations_directly_def)
  next
    case Resample
    then show ?thesis
      using a by (simp add: adjusted_span_durations_def adjust_durations_with_span_average_def Let_def)
  next
    case Unadjusted
    then show ?thesis using r by (auto simp: adjusted_span_durations_def)
  qed
qed

lemma adjusted_empty:
  "span_duration_mapping M = [] \<Longrightarrow> snd (adjusted_span_durations K self client M) = []"
  by (cases "choose_strategy self M")
     (simp_all add: adjusted_span_durations_def adjust_durations_directly_def
        adjust_durations_with_span_average_def Let_def)

lemma process_is_cut:
  "snd (process_exclusive_duration_data K self client logs) =
     top_95_percent K (snd (adjusted_span_durations K self client (collect_logs K self logs)))"
proof (cases "span_duration_mapping (collect_logs K self logs) = []")
  case True
  then show ?thesis
    by (simp add: process_exclusive_duration_data_def adjusted_empty top_95_percent_def sort_desc_def)
next
  case False
  then show ?thesis
    by (simp add: process_exclusive_duration_data_def Let_def split_def)
qed

lemma selector_durations_nonneg:
  assumes "0 \<le> MAX_DURATION K"
  shows "nonneg_durations (snd (adjusted_span_durations K self client (collect_logs K self logs)))"
proof -
  have "collected_inv K (collect_logs K self logs)" by (rule collected_inv_collect_logs)
  from adjusted_in_range[OF this assms] show ?thesis
    by (simp add: nonneg_durations_def list_all_iff)
qed

text \<open>
  C2. The selector returns the percentile cut of the adjusted durations of the collected
  spans, which are not negative when the ceiling is not. With non-negative adjusted
  durations and a percentile in (0, 1]: when the total is 0 the cut is the empty list; otherwise it returns the span ids of the shortest
  prefix of the list sorted by descending adjusted duration whose cumulative duration
  reaches total * percentile. The element that reaches the target is included, and every
  shorter prefix, in particular the output without its last element, stays below the
  target. Durations 70, 10, 10, 5, 5 at percentile 0.95 give a, b, c, d.
\<close>

theorem C2_percentile_cut:
  "(nonneg_durations xs \<and> 0 < PERCENT_95 K \<and> PERCENT_95 K \<le> 1 \<longrightarrow>
      (sum_list (map snd xs) = 0 \<longrightarrow> top_95_percent K xs = []) \<and>
      (sum_list (map snd xs) \<noteq> 0 \<longrightarrow>
         (\<exists>n. n \<le> length xs \<and> top_95_percent K xs = map fst (take n (sort_desc xs)) \<and>
            sum_list (map snd (take n (sort_desc xs))) \<ge> sum_list (map snd xs) * PERCENT_95 K \<and>
            (\<forall>m<n. sum_list (map snd (take m (sort_desc xs))) < sum_list (map snd xs) * PERCENT_95 K))) \<and>
      mset (sort_desc xs) = mset xs \<and>
      sorted_wrt (\<lambda>a b. snd a \<ge> snd b) (sort_desc xs))
   \<and> snd (process_exclusive_duration_data K self client logs) =
       top_95_percent K (snd (adjusted_span_durations K self client (collect_logs K self logs)))
   \<and> (0 \<le> MAX_DURATION K \<longrightarrow>
        nonneg_durations (snd (adjusted_span_durations K self client (collect_logs K self logs))))
   \<and> top_95_percent example_constants example_durations = [''a'', ''b'', ''c'', ''d'']"
proof (intro conjI impI)
  show "snd (process_exclusive_duration_data K self client logs) =
       top_95_percent K (snd (adjusted_span_durations K self client (collect_logs K self logs)))"
    by (rule process_is_cut)
next
  assume "0 \<le> MAX_DURATION K"
  then show "nonneg_durations (snd (adjusted_span_durations K self client (collect_logs K self logs)))"
    by (rule selector_durations_nonneg)
next
  assume "nonneg_durations xs \<and> 0 < PERCENT_95 K \<and> PERCENT_95 K \<le> 1"
    and "sum_list (map snd xs) \<noteq> 0"
  then show "\<exists>n. n \<le> length xs \<and> top_95_percent K xs = map fst (take n (sort_desc xs)) \<and>
            sum_list (map snd (take n (sort_desc xs))) \<ge> sum_list (map snd xs) * PERCENT_95 K \<and>
            (\<forall>m<n. sum_list (map snd (take m (sort_desc xs))) < sum_list (map snd xs) * PERCENT_95 K)"
    using top_95_percent_cut[of xs K] by (simp add: nonneg_durations_def list_all_iff)
next
  assume "sum_list (map snd xs) = 0"
  then show "top_95_percent K xs = []" by (rule top_95_percent_zero)
next
  show "mset (sort_desc xs) = mset xs" by (simp add: sort_desc_def)
next
  show "sorted_wrt (\<lambda>a b. snd a \<ge> snd b) (sort_desc xs)" by (rule sort_desc_descending)
next
  show "top_95_percent example_constants example_durations = [''a'', ''b'', ''c'', ''d'']"
    by code_simp
qed

theorem C2_percentile_cut_witness:
  "nonneg_durations example_durations \<and> 0 < PERCENT_95 example_constants \<and>
   PERCENT_95 example_constants \<le> 1 \<and> sum_list (map snd example_durations) \<noteq> 0 \<and>
   (\<exists>n. n \<le> length example_durations \<and>
      top_95_percent example_constants example_durations = map fst (take n (sort_desc example_durations)) \<and>
      sum_list (map snd (take n (sort_desc example_durations)))
        \<ge> sum_list (map snd example_durations) * PERCENT_95 example_constants \<and>
      (\<forall>m<n. sum_list (map snd (take m (sort_desc example_durations)))
        < sum_list (map snd example_durations) * PERCENT_95 example_constants))"
proof -
  have h1: "nonneg_durations example_durations" by code_simp
  have h2: "0 < PERCENT_95 example_constants" "PERCENT_95 example_constants \<le> 1"
    by (simp_all add: example_constants_def)
  have h3: "sum_list (map snd example_durations) \<noteq> 0" by (simp add: example_durations_def)
  from C2_percentile_cut[of example_durations example_constants] h1 h2 h3
  show ?thesis by blast
qed


end
